theory Spec2Isabelle
  imports Main "HOL-Library.Word" "HOL-Library.Char_ord" "HOL-Library.List_Lexorder"
begin

unbundle bit_operations_syntax

section \<open>Python values, exceptions and built-ins used by \<^verbatim>\<open>synapse/state.py\<close>\<close>

text \<open>
  Exceptions are values. \<open>Exception msg\<close> is \<^verbatim>\<open>raise Exception(msg)\<close>; \<open>Failure msg\<close> is
  whatever a collaborator (persistence service, replication layer, a caller's callback)
  raises; the other constructors are the built-in exceptions the interpreter raises for
  \<^verbatim>\<open>xs[-1]\<close> on an empty list, \<^verbatim>\<open>max\<close> of an empty sequence, a missing attribute and a call
  of something that is not callable.
\<close>

datatype error =
    AttributeError
  | IndexError
  | ValueError
  | TypeError
  | Exception string
  | Failure string

text \<open>\<^verbatim>\<open>xs[-1]\<close>: the last element, \<^verbatim>\<open>IndexError\<close> on the empty list.\<close>

definition py_last :: "'a list \<Rightarrow> error + 'a" where
  "py_last xs = (if xs = [] then Inl IndexError else Inr (last xs))"

text \<open>
  \<^verbatim>\<open>max(xs, key=f)\<close>: \<^verbatim>\<open>ValueError\<close> on the empty sequence, otherwise the first element
  whose key is maximal (a later element replaces the running maximum only when its key is
  strictly greater).
\<close>

fun py_max_key :: "('a \<Rightarrow> int) \<Rightarrow> 'a list \<Rightarrow> error + 'a" where
  "py_max_key f [] = Inl ValueError"
| "py_max_key f (x # xs) = Inr (foldl (\<lambda>m y. if f m < f y then y else m) x xs)"

text \<open>\<^verbatim>\<open>max(a, b, key=f)\<close> with two positional arguments: \<open>a\<close> unless \<open>b\<close>'s key is strictly greater.\<close>

definition py_max2 :: "('a \<Rightarrow> int) \<Rightarrow> 'a \<Rightarrow> 'a \<Rightarrow> 'a" where
  "py_max2 f a b = (if f a < f b then b else a)"

section \<open>\<^verbatim>\<open>hashlib.sha1(s).hexdigest()\<close>\<close>

text \<open>
  The digest is the standard library's, not the repository's; it is written out (FIPS 180-4,
  SHA-1 over a byte string, 40 lower-case hexadecimal digits) so that every statement below
  is about the function the code calls.
\<close>

definition rotl :: "nat \<Rightarrow> 32 word \<Rightarrow> 32 word" where
  "rotl n x = push_bit n x OR drop_bit (32 - n) x"

definition sha1_pad :: "string \<Rightarrow> int list" where
  "sha1_pad m =
     (let l = length m in
      map of_char m @ [128] @ replicate ((119 - l mod 64) mod 64) 0 @
      map (\<lambda>i. (8 * int l) div 256 ^ (7 - i) mod 256) [0..<8])"

fun sha1_words :: "int list \<Rightarrow> 32 word list" where
  "sha1_words (a # b # c # d # bs) =
     word_of_int (((a * 256 + b) * 256 + c) * 256 + d) # sha1_words bs"
| "sha1_words _ = []"

fun sha1_blocks :: "32 word list \<Rightarrow> 32 word list list" where
  "sha1_blocks [] = []"
| "sha1_blocks ws = take 16 ws # sha1_blocks (drop 16 ws)"

fun sha1_schedule :: "nat \<Rightarrow> 32 word list \<Rightarrow> 32 word list" where
  "sha1_schedule 0 ws = ws"
| "sha1_schedule (Suc n) ws =
     (let t = length ws in
      sha1_schedule n
        (ws @ [rotl 1 (ws ! (t - 3) XOR ws ! (t - 8) XOR ws ! (t - 14) XOR ws ! (t - 16))]))"

type_synonym sha1_state = "32 word \<times> 32 word \<times> 32 word \<times> 32 word \<times> 32 word"

definition sha1_round :: "nat \<Rightarrow> 32 word \<Rightarrow> sha1_state \<Rightarrow> sha1_state" where
  "sha1_round t w st =
     (case st of (a, b, c, d, e) \<Rightarrow>
        let f = (if t < 20 then (b AND c) OR (NOT b AND d)
                 else if t < 40 then b XOR c XOR d
                 else if t < 60 then (b AND c) OR (b AND d) OR (c AND d)
                 else b XOR c XOR d);
            k = (if t < 20 then 0x5A827999
                 else if t < 40 then 0x6ED9EBA1
                 else if t < 60 then 0x8F1BBCDC
                 else 0xCA62C1D6)
        in (rotl 5 a + f + e + k + w, a, rotl 30 b, c, d))"

fun sha1_rounds :: "nat \<Rightarrow> 32 word list \<Rightarrow> sha1_state \<Rightarrow> sha1_state" where
  "sha1_rounds t [] st = st"
| "sha1_rounds t (w # ws) st = sha1_rounds (Suc t) ws (sha1_round t w st)"

definition sha1_block :: "sha1_state \<Rightarrow> 32 word list \<Rightarrow> sha1_state" where
  "sha1_block h blk =
     (case h of (h0, h1, h2, h3, h4) \<Rightarrow>
      case sha1_rounds 0 (sha1_schedule 64 blk) h of (a, b, c, d, e) \<Rightarrow>
        (h0 + a, h1 + b, h2 + c, h3 + d, h4 + e))"

definition hex_digit :: "nat \<Rightarrow> char" where
  "hex_digit n = ''0123456789abcdef'' ! n"

definition hex_word :: "32 word \<Rightarrow> string" where
  "hex_word w = map (\<lambda>i. hex_digit (nat (uint w div 16 ^ (7 - i) mod 16))) [0..<8]"

definition sha1_hexdigest :: "string \<Rightarrow> string" where
  "sha1_hexdigest m =
     (case foldl sha1_block (0x67452301, 0xEFCDAB89, 0x98BADCFE, 0x10325476, 0xC3D2E1F0)
             (sha1_blocks (sha1_words (sha1_pad m))) of
        (h0, h1, h2, h3, h4) \<Rightarrow>
          hex_word h0 @ hex_word h1 @ hex_word h2 @ hex_word h3 @ hex_word h4)"

section \<open>Data model\<close>

text \<open>
  A PDU as the resolver reads it: the attributes \<^verbatim>\<open>pdu_id\<close>, \<^verbatim>\<open>origin\<close>, \<^verbatim>\<open>context\<close>,
  \<^verbatim>\<open>pdu_type\<close>, \<^verbatim>\<open>state_key\<close>, \<^verbatim>\<open>depth\<close>, \<^verbatim>\<open>power_level\<close>, \<^verbatim>\<open>prev_state_id\<close> and
  \<^verbatim>\<open>prev_state_origin\<close> (the last two may be \<^verbatim>\<open>None\<close>). Two PDUs are equal (\<^verbatim>\<open>==\<close>) when all
  their fields are. The attribute \<^verbatim>\<open>context\<close> is the field \<open>pdu_context\<close>.
\<close>

record pdu =
  pdu_id :: string
  origin :: string
  pdu_context :: string
  pdu_type :: string
  state_key :: string
  depth :: int
  power_level :: int
  prev_state_id :: "string option"
  prev_state_origin :: "string option"

text \<open>\<^verbatim>\<open>KeyStateTuple = namedtuple("KeyStateTuple", ("context", "type", "state_key"))\<close>\<close>

datatype KeyStateTuple = KeyStateTuple string string string

text \<open>
  The event draft of \<^verbatim>\<open>handle_new_event\<close>: \<^verbatim>\<open>room_id\<close>, \<^verbatim>\<open>type\<close>, \<^verbatim>\<open>state_key\<close> and
  \<^verbatim>\<open>event_id\<close> are read, the other four attributes are assigned.
\<close>

record event =
  room_id :: string
  event_type :: string
  event_state_key :: string
  event_id :: string
  prev_events :: "string list"
  event_depth :: int
  event_prev_state_id :: string
  event_prev_state_origin :: string

text \<open>The record \<^verbatim>\<open>get_current_state\<close> returns: its \<^verbatim>\<open>pdu_id\<close> and \<^verbatim>\<open>origin\<close>.\<close>

record current_state =
  cs_pdu_id :: string
  cs_origin :: string

text \<open>The three tiebreak methods listed in \<^verbatim>\<open>conflict_res\<close>.\<close>

datatype algo = PowerLevel | ChainLength | ContentHash

text \<open>
  What a run does that an observer can see, in order: the calls to the collaborators with
  their arguments, the invocations of the caller's callbacks, and which tiebreak methods
  the loop of \<^verbatim>\<open>_handle_new_state\<close> called.
\<close>

datatype call =
    GetLatestPdusInContext string
  | GetCurrentState string string string
  | GetUnresolvedStateTree pdu
  | UpdateCurrentState string string string string string
  | GetPdu string "string option" "string option" bool
  | EventCallback event
  | StateCallback pdu
  | ConflictRes algo

text \<open>
  The handler object. \<open>'w\<close> is the state of the world outside the handler (what the
  persistence service stores, what the network holds). \<^verbatim>\<open>__init__\<close> assigns
  \<^verbatim>\<open>_persistence\<close> and \<^verbatim>\<open>_replication\<close>, whose methods are the first three fields: the two
  queries read the world and answer or raise, \<^verbatim>\<open>get_pdu\<close> answers or raises and leaves a
  new world. \<^verbatim>\<open>handle_new_event\<close> also reads \<^verbatim>\<open>self.service\<close>, \<^verbatim>\<open>self.persistence\<close> and
  \<^verbatim>\<open>self.server_name\<close>, which \<^verbatim>\<open>__init__\<close> does not assign: each is \<open>None\<close> when the
  attribute is missing (reading it raises \<^verbatim>\<open>AttributeError\<close>), and otherwise holds the method
  called on it (\<^verbatim>\<open>get_latest_pdus_in_context\<close>, \<^verbatim>\<open>update_current_state\<close>) or the name.
\<close>

record 'w StateHandler =
  get_current_state :: "'w \<Rightarrow> string \<Rightarrow> string \<Rightarrow> string \<Rightarrow> error + current_state option"
  get_unresolved_state_tree :: "'w \<Rightarrow> pdu \<Rightarrow> error + pdu list \<times> pdu list"
  get_pdu :: "'w \<Rightarrow> string \<Rightarrow> string option \<Rightarrow> string option \<Rightarrow> bool \<Rightarrow> (error + unit) \<times> 'w"
  service :: "('w \<Rightarrow> string \<Rightarrow> error + (string \<times> string \<times> int) list) option"
  persistence ::
    "('w \<Rightarrow> string \<Rightarrow> string \<Rightarrow> string \<Rightarrow> string \<Rightarrow> string \<Rightarrow> (error + unit) \<times> 'w) option"
  server_name :: "string option"

text \<open>
  The mutable state a run threads through: the world, the table \<^verbatim>\<open>self._update_deferreds\<close>,
  the \<^verbatim>\<open>Deferred\<close> objects (numbered in creation order; \<open>allocated\<close> counts them and \<open>called\<close>
  lists those whose \<^verbatim>\<open>callback(None)\<close> has run), and the trace of calls so far.
\<close>

record 'w state =
  world :: 'w
  update_deferreds :: "KeyStateTuple \<Rightarrow> nat option"
  called :: "nat list"
  allocated :: nat
  trace :: "call list"

section \<open>The tiebreak methods\<close>

text \<open>
  A method returns a pair of integers or a pair of strings, which the loop compares with
  \<^verbatim>\<open><\<close> and \<^verbatim>\<open>>\<close>. Python 2 orders integers by value, byte strings lexicographically by byte,
  and any integer before any string.
\<close>

datatype score = IntScore int | StrScore string

fun score_less :: "score \<Rightarrow> score \<Rightarrow> bool" where
  "score_less (IntScore a) (IntScore b) = (a < b)"
| "score_less (StrScore a) (StrScore b) = (a < b)"
| "score_less (IntScore a) (StrScore b) = True"
| "score_less (StrScore a) (IntScore b) = False"

text \<open>\<^verbatim>\<open>_do_power_level_conflict_res\<close>: \<^verbatim>\<open>branch[:-1]\<close> is \<open>butlast\<close>.\<close>

definition u_do_power_level_conflict_res :: "pdu list \<Rightarrow> pdu list \<Rightarrow> error + score \<times> score" where
  "u_do_power_level_conflict_res new_branch current_branch =
     (case py_max_key power_level (butlast new_branch) of
        Inl e \<Rightarrow> Inl e
      | Inr max_new \<Rightarrow>
          (case py_max_key power_level (butlast current_branch) of
             Inl e \<Rightarrow> Inl e
           | Inr max_current \<Rightarrow>
               Inr (IntScore (power_level max_new), IntScore (power_level max_current))))"

text \<open>\<^verbatim>\<open>_do_chain_length_conflict_res\<close>\<close>

definition u_do_chain_length_conflict_res :: "pdu list \<Rightarrow> pdu list \<Rightarrow> error + score \<times> score" where
  "u_do_chain_length_conflict_res new_branch current_branch =
     Inr (IntScore (int (length new_branch)), IntScore (int (length current_branch)))"

text \<open>\<^verbatim>\<open>_do_hash_conflict_res\<close>: \<^verbatim>\<open>"".join([p.pdu_id + p.origin for p in branch])\<close>, digested.\<close>

definition branch_str :: "pdu list \<Rightarrow> string" where
  "branch_str branch = concat (map (\<lambda>p. pdu_id p @ origin p) branch)"

definition u_do_hash_conflict_res :: "pdu list \<Rightarrow> pdu list \<Rightarrow> error + score \<times> score" where
  "u_do_hash_conflict_res new_branch current_branch =
     Inr (StrScore (sha1_hexdigest (branch_str new_branch)),
          StrScore (sha1_hexdigest (branch_str current_branch)))"

fun run_algo :: "algo \<Rightarrow> pdu list \<Rightarrow> pdu list \<Rightarrow> error + score \<times> score" where
  "run_algo PowerLevel = u_do_power_level_conflict_res"
| "run_algo ChainLength = u_do_chain_length_conflict_res"
| "run_algo ContentHash = u_do_hash_conflict_res"

definition conflict_res :: "algo list" where
  "conflict_res = [PowerLevel, ChainLength, ContentHash]"

text \<open>
  The loop \<^verbatim>\<open>for algo in conflict_res\<close> of \<^verbatim>\<open>_handle_new_state\<close> and the \<^verbatim>\<open>raise\<close> after it:
  a method that raises ends the run, a strict inequality returns, equal scores go on to
  the next method, and the exhausted list raises.
\<close>

fun run_conflict_res ::
  "algo list \<Rightarrow> pdu list \<Rightarrow> pdu list \<Rightarrow> 'w state \<Rightarrow> (error + bool) \<times> 'w state" where
  "run_conflict_res [] new_branch current_branch s =
     (Inl (Exception ''Conflict resolution failed.''), s)"
| "run_conflict_res (a # rest) new_branch current_branch s =
     (let s' = s\<lparr>trace := trace s @ [ConflictRes a]\<rparr> in
      case run_algo a new_branch current_branch of
        Inl e \<Rightarrow> (Inl e, s')
      | Inr (new_res, curr_res) \<Rightarrow>
          if score_less new_res curr_res then (Inr False, s')
          else if score_less curr_res new_res then (Inr True, s')
          else run_conflict_res rest new_branch current_branch s')"

section \<open>\<^verbatim>\<open>_handle_new_state\<close>\<close>

text \<open>
  The resolver calls itself after every fetch and the source bounds the recursion by
  nothing, so a run need not return: the result is \<open>None\<close> exactly when it does not.
  A run that returns gives the verdict or the exception raised, and the state it leaves.
\<close>

partial_function (option) u_handle_new_state ::
  "'w StateHandler \<Rightarrow> pdu \<Rightarrow> 'w state \<Rightarrow> ((error + bool) \<times> 'w state) option" where
  "u_handle_new_state self new_pdu s =
     (let s1 = s\<lparr>trace := trace s @ [GetUnresolvedStateTree new_pdu]\<rparr> in
      case get_unresolved_state_tree self (world s) new_pdu of
        Inl e \<Rightarrow> Some (Inl e, s1)
      | Inr (new_branch, current_branch) \<Rightarrow>
          if current_branch = [] then Some (Inr True, s1)
          else
            (case py_last new_branch of
               Inl e \<Rightarrow> Some (Inl e, s1)
             | Inr new_last \<Rightarrow>
                 if new_last = last current_branch then
                   (if length current_branch = 1 then Some (Inr True, s1)
                    else Some (run_conflict_res conflict_res new_branch current_branch s1))
                 else
                   (let missing_prev = py_max2 depth new_last (last current_branch);
                        fetched = get_pdu self (world s1) (origin missing_prev)
                                    (prev_state_origin missing_prev) (prev_state_id missing_prev) True;
                        s2 = s1\<lparr>world := snd fetched,
                                trace := trace s1 @
                                  [GetPdu (origin missing_prev) (prev_state_origin missing_prev)
                                     (prev_state_id missing_prev) True]\<rparr>
                    in case fst fetched of
                         Inl e \<Rightarrow> Some (Inl e, s2)
                       | Inr _ \<Rightarrow> u_handle_new_state self new_pdu s2)))"

section \<open>Deferreds, the key lock and the callbacks\<close>

text \<open>\<^verbatim>\<open>new_deferred.callback(None)\<close>\<close>

definition fire :: "nat \<Rightarrow> 'w state \<Rightarrow> 'w state" where
  "fire d s = s\<lparr>called := called s @ [d]\<rparr>"

text \<open>
  \<^verbatim>\<open>_lock\<close>: the table entry of the key is replaced by the new deferred, and the caller
  waits for the old one when there was one. The result is \<open>True\<close> when the caller goes on at
  once (no old deferred, or one that has been called already) and \<open>False\<close> when it is
  suspended until the old deferred is called.
\<close>

definition u_lock :: "KeyStateTuple \<Rightarrow> nat \<Rightarrow> 'w state \<Rightarrow> bool \<times> 'w state" where
  "u_lock key new_deferred s =
     (let old_deferred = update_deferreds s key;
          s' = s\<lparr>update_deferreds := (update_deferreds s)(key \<mapsto> new_deferred)\<rparr>
      in case old_deferred of
           None \<Rightarrow> (True, s')
         | Some d \<Rightarrow> (d \<in> set (called s'), s'))"

text \<open>
  A caller's callback is called with the PDU or event and the world; it raises or returns
  a value, and leaves a new world. The source then hands that \<^emph>\<open>value\<close> to
  \<^verbatim>\<open>defer.maybeDeferred\<close>, which calls its first argument: a value that is not callable
  (\<^verbatim>\<open>None\<close>, a \<^verbatim>\<open>Deferred\<close>) makes the awaited deferred fail with \<^verbatim>\<open>TypeError\<close>, a callable
  one is run.
\<close>

datatype 'w callable = NotCallable | Callable "'w \<Rightarrow> (error + unit) \<times> 'w"

type_synonym ('a, 'w) callback = "'a \<Rightarrow> 'w \<Rightarrow> (error + 'w callable) \<times> 'w"

definition maybeDeferred :: "'w callable \<Rightarrow> 'w state \<Rightarrow> (error + unit) \<times> 'w state" where
  "maybeDeferred f s =
     (case f of
        NotCallable \<Rightarrow> (Inl TypeError, s)
      | Callable g \<Rightarrow> (fst (g (world s)), s\<lparr>world := snd (g (world s))\<rparr>))"

text \<open>\<^verbatim>\<open>yield defer.maybeDeferred(new_state_callback(x))\<close>\<close>

definition call_back ::
  "('a \<Rightarrow> call) \<Rightarrow> ('a, 'w) callback \<Rightarrow> 'a \<Rightarrow> 'w state \<Rightarrow> (error + unit) \<times> 'w state" where
  "call_back tag new_state_callback x s =
     (let r = new_state_callback x (world s);
          s' = s\<lparr>world := snd r, trace := trace s @ [tag x]\<rparr>
      in case fst r of
           Inl e \<Rightarrow> (Inl e, s')
         | Inr f \<Rightarrow> maybeDeferred f s')"

text \<open>
  How a call of one of the two public methods stands when control comes back: it returned
  a value, it raised, or it is suspended in \<^verbatim>\<open>_lock\<close> on the previous holder's deferred.
\<close>

datatype 'a outcome = Returned 'a | Raised error | Waiting

section \<open>\<^verbatim>\<open>handle_new_state\<close>\<close>

text \<open>The \<^verbatim>\<open>try\<close> block after \<^verbatim>\<open>yield self._lock(key, new_deferred)\<close>.\<close>

definition handle_new_state_try ::
  "'w StateHandler \<Rightarrow> pdu \<Rightarrow> (pdu, 'w) callback option \<Rightarrow> 'w state \<Rightarrow>
     ((error + bool) \<times> 'w state) option" where
  "handle_new_state_try self new_pdu new_state_callback s =
     (case u_handle_new_state self new_pdu s of
        None \<Rightarrow> None
      | Some (Inl e, s1) \<Rightarrow> Some (Inl e, s1)
      | Some (Inr is_new, s1) \<Rightarrow>
          (case (if is_new then new_state_callback else None) of
             None \<Rightarrow> Some (Inr is_new, s1)
           | Some cb \<Rightarrow>
               (case call_back StateCallback cb new_pdu s1 of
                  (Inl e, s2) \<Rightarrow> Some (Inl e, s2)
                | (Inr _, s2) \<Rightarrow> Some (Inr is_new, s2))))"

text \<open>
  The method from the point where the lock lets it go on: the \<^verbatim>\<open>try\<close> block, the
  \<^verbatim>\<open>finally\<close> clause, and \<^verbatim>\<open>defer.returnValue(is_new)\<close>.
\<close>

definition handle_new_state_resume ::
  "'w StateHandler \<Rightarrow> pdu \<Rightarrow> (pdu, 'w) callback option \<Rightarrow> nat \<Rightarrow> 'w state \<Rightarrow>
     (bool outcome \<times> 'w state) option" where
  "handle_new_state_resume self new_pdu new_state_callback new_deferred s =
     (case handle_new_state_try self new_pdu new_state_callback s of
        None \<Rightarrow> None
      | Some (Inl e, s') \<Rightarrow> Some (Raised e, fire new_deferred s')
      | Some (Inr is_new, s') \<Rightarrow> Some (Returned is_new, fire new_deferred s'))"

definition handle_new_state ::
  "'w StateHandler \<Rightarrow> pdu \<Rightarrow> (pdu, 'w) callback option \<Rightarrow> 'w state \<Rightarrow>
     (bool outcome \<times> 'w state) option" where
  "handle_new_state self new_pdu new_state_callback s =
     (let key = KeyStateTuple (pdu_context new_pdu) (pdu_type new_pdu) (state_key new_pdu);
          new_deferred = allocated s;
          s0 = s\<lparr>allocated := Suc (allocated s)\<rparr>
      in case u_lock key new_deferred s0 of
           (False, s1) \<Rightarrow> Some (Waiting, s1)
         | (True, s1) \<Rightarrow> handle_new_state_resume self new_pdu new_state_callback new_deferred s1)"

section \<open>\<^verbatim>\<open>handle_new_event\<close>\<close>

definition u_get_state_key_from_event :: "event \<Rightarrow> string" where
  "u_get_state_key_from_event event = event_state_key event"

text \<open>
  The \<^verbatim>\<open>try\<close> block after the lock, in its three parts. First the room's latest PDUs are
  asked of \<^verbatim>\<open>self.service\<close> and the draft's \<^verbatim>\<open>prev_events\<close> and \<^verbatim>\<open>depth\<close> are assigned;
  \<^verbatim>\<open>"%s@%s" % (p_id, origin)\<close> joins the two strings with an at sign, and the depths are
  integers already.
\<close>

definition fill_prev_events ::
  "'w StateHandler \<Rightarrow> event \<Rightarrow> 'w state \<Rightarrow> (error + event) \<times> 'w state" where
  "fill_prev_events self event s =
     (case service self of
        None \<Rightarrow> (Inl AttributeError, s)
      | Some get_latest_pdus_in_context \<Rightarrow>
          (let s1 = s\<lparr>trace := trace s @ [GetLatestPdusInContext (room_id event)]\<rparr> in
           case get_latest_pdus_in_context (world s) (room_id event) of
             Inl e \<Rightarrow> (Inl e, s1)
           | Inr results \<Rightarrow>
               (let event1 = event\<lparr>prev_events :=
                               map (\<lambda>(p_id, p_origin, _). p_id @ ''@'' @ p_origin) results\<rparr>
                in if results \<noteq> [] then
                     (case py_max_key id (map (\<lambda>(_, _, v). v) results) of
                        Inl e \<Rightarrow> (Inl e, s1)
                      | Inr m \<Rightarrow> (Inr (event1\<lparr>event_depth := m + 1\<rparr>), s1))
                   else (Inr (event1\<lparr>event_depth := 0\<rparr>), s1))))"

text \<open>
  Then the slot's current state is asked of \<^verbatim>\<open>self._persistence\<close> and its \<^verbatim>\<open>pdu_id\<close> and
  \<^verbatim>\<open>origin\<close> are read into the draft: on \<^verbatim>\<open>None\<close> the read raises \<^verbatim>\<open>AttributeError\<close>.
  The source uses what the call returns as it is, without \<^verbatim>\<open>yield\<close>; the service is taken
  to answer at once with a current state or \<^verbatim>\<open>None\<close>, as its interface says.
\<close>

definition fill_prev_state ::
  "'w StateHandler \<Rightarrow> KeyStateTuple \<Rightarrow> event \<Rightarrow> 'w state \<Rightarrow> (error + event) \<times> 'w state" where
  "fill_prev_state self key event s =
     (case key of KeyStateTuple k_context k_type k_state_key \<Rightarrow>
        (let s1 = s\<lparr>trace := trace s @ [GetCurrentState k_context k_type k_state_key]\<rparr> in
         case get_current_state self (world s) k_context k_type k_state_key of
           Inl e \<Rightarrow> (Inl e, s1)
         | Inr None \<Rightarrow> (Inl AttributeError, s1)
         | Inr (Some current_state) \<Rightarrow>
             (Inr (event\<lparr>event_prev_state_id := cs_pdu_id current_state,
                         event_prev_state_origin := cs_origin current_state\<rparr>), s1)))"

text \<open>
  Last the caller's callback is called with the draft and, when that went well, the new
  current state is written through \<^verbatim>\<open>self.persistence\<close> under the name \<^verbatim>\<open>self.server_name\<close>.
\<close>

definition admit_and_update ::
  "'w StateHandler \<Rightarrow> (event, 'w) callback \<Rightarrow> KeyStateTuple \<Rightarrow> event \<Rightarrow> 'w state \<Rightarrow>
     (error + unit) \<times> 'w state" where
  "admit_and_update self new_state_callback key event s =
     (case key of KeyStateTuple k_context k_type k_state_key \<Rightarrow>
        (case call_back EventCallback new_state_callback event s of
           (Inl e, s1) \<Rightarrow> (Inl e, s1)
         | (Inr _, s1) \<Rightarrow>
             (case persistence self of
                None \<Rightarrow> (Inl AttributeError, s1)
              | Some update_current_state \<Rightarrow>
                  (case server_name self of
                     None \<Rightarrow> (Inl AttributeError, s1)
                   | Some name \<Rightarrow>
                       (let r = update_current_state (world s1) (event_id event) name
                                  k_context k_type k_state_key
                        in (fst r,
                            s1\<lparr>world := snd r,
                               trace := trace s1 @
                                 [UpdateCurrentState (event_id event) name
                                    k_context k_type k_state_key]\<rparr>))))))"

definition handle_new_event_try ::
  "'w StateHandler \<Rightarrow> event \<Rightarrow> (event, 'w) callback \<Rightarrow> KeyStateTuple \<Rightarrow> 'w state \<Rightarrow>
     (error + unit) \<times> 'w state" where
  "handle_new_event_try self event new_state_callback key s =
     (case fill_prev_events self event s of
        (Inl e, s1) \<Rightarrow> (Inl e, s1)
      | (Inr event1, s1) \<Rightarrow>
          (case fill_prev_state self key event1 s1 of
             (Inl e, s2) \<Rightarrow> (Inl e, s2)
           | (Inr event2, s2) \<Rightarrow> admit_and_update self new_state_callback key event2 s2))"

text \<open>The method from the point where the lock lets it go on: the \<^verbatim>\<open>try\<close> block and the \<^verbatim>\<open>finally\<close> clause.\<close>

definition handle_new_event_resume ::
  "'w StateHandler \<Rightarrow> event \<Rightarrow> (event, 'w) callback \<Rightarrow> KeyStateTuple \<Rightarrow> nat \<Rightarrow> 'w state \<Rightarrow>
     unit outcome \<times> 'w state" where
  "handle_new_event_resume self event new_state_callback key new_deferred s =
     (case handle_new_event_try self event new_state_callback key s of
        (Inl e, s') \<Rightarrow> (Raised e, fire new_deferred s')
      | (Inr _, s') \<Rightarrow> (Returned (), fire new_deferred s'))"

definition handle_new_event ::
  "'w StateHandler \<Rightarrow> event \<Rightarrow> (event, 'w) callback \<Rightarrow> 'w state \<Rightarrow> unit outcome \<times> 'w state" where
  "handle_new_event self event new_state_callback s =
     (let key = KeyStateTuple (room_id event) (event_type event) (u_get_state_key_from_event event);
          new_deferred = allocated s;
          s0 = s\<lparr>allocated := Suc (allocated s)\<rparr>
      in case u_lock key new_deferred s0 of
           (False, s1) \<Rightarrow> (Waiting, s1)
         | (True, s1) \<Rightarrow> handle_new_event_resume self event new_state_callback key new_deferred s1)"

section \<open>Notions the statements use\<close>

text \<open>The key under which \<^verbatim>\<open>handle_new_state\<close> locks.\<close>

definition pdu_key :: "pdu \<Rightarrow> KeyStateTuple" where
  "pdu_key new_pdu = KeyStateTuple (pdu_context new_pdu) (pdu_type new_pdu) (state_key new_pdu)"

text \<open>The key under which \<^verbatim>\<open>handle_new_event\<close> locks.\<close>

definition event_key :: "event \<Rightarrow> KeyStateTuple" where
  "event_key event = KeyStateTuple (room_id event) (event_type event) (event_state_key event)"

text \<open>
  No unfinished holder is registered for the key: the table has no deferred for it, or the
  one it has was called.
\<close>

definition lock_free :: "'w state \<Rightarrow> KeyStateTuple \<Rightarrow> bool" where
  "lock_free s key =
     (case update_deferreds s key of None \<Rightarrow> True | Some d \<Rightarrow> d \<in> set (called s))"

text \<open>
  The three scores in the words of the specification: the greatest power level among a
  branch's elements other than its last, the number of elements, and the digest of the
  concatenated \<^verbatim>\<open>pdu_id + origin\<close> strings.
\<close>

definition max_power :: "pdu list \<Rightarrow> int" where
  "max_power branch = Max (power_level ` set (butlast branch))"

definition digest :: "pdu list \<Rightarrow> string" where
  "digest branch = sha1_hexdigest (branch_str branch)"

text \<open>
  The pipeline in the words of the specification: the first score pair that differs
  decides, the new branch winning when its score is the greater; three equal pairs are the
  fatal failure. \<open>tiebreaks_run\<close> lists the comparators up to the deciding one.
\<close>

definition tiebreak_verdict :: "pdu list \<Rightarrow> pdu list \<Rightarrow> error + bool" where
  "tiebreak_verdict new_branch current_branch =
     (if max_power new_branch \<noteq> max_power current_branch
      then Inr (max_power current_branch < max_power new_branch)
      else if length new_branch \<noteq> length current_branch
      then Inr (length current_branch < length new_branch)
      else if digest new_branch \<noteq> digest current_branch
      then Inr (digest current_branch < digest new_branch)
      else Inl (Exception ''Conflict resolution failed.''))"

definition tiebreaks_run :: "pdu list \<Rightarrow> pdu list \<Rightarrow> algo list" where
  "tiebreaks_run new_branch current_branch =
     (if max_power new_branch \<noteq> max_power current_branch then [PowerLevel]
      else if length new_branch \<noteq> length current_branch then [PowerLevel, ChainLength]
      else [PowerLevel, ChainLength, ContentHash])"

section \<open>Concrete collaborators and PDUs\<close>

text \<open>
  A persistence service and a replication layer that follow a script. The world is the
  number of fetches made so far: the state tree and the fate of the next fetch depend on
  it alone, and every fetch, successful or not, advances it. The service has no current
  state for any slot, and the attributes \<^verbatim>\<open>__init__\<close> does not assign are missing.
\<close>

definition scripted ::
  "(nat \<Rightarrow> error + pdu list \<times> pdu list) \<Rightarrow> (nat \<Rightarrow> error + unit) \<Rightarrow> nat StateHandler" where
  "scripted trees fetch =
     \<lparr>get_current_state = (\<lambda>w k_context k_type k_state_key. Inr None),
      get_unresolved_state_tree = (\<lambda>w new_pdu. trees w),
      get_pdu = (\<lambda>w destination pdu_origin p_id outlier. (fetch w, Suc w)),
      service = None,
      persistence = None,
      server_name = None\<rparr>"

text \<open>A handler that has just been constructed: no lock taken, nothing called yet.\<close>

definition initial :: "'w \<Rightarrow> 'w state" where
  "initial w =
     \<lparr>world = w, update_deferreds = (\<lambda>key. None), called = [], allocated = 0, trace = []\<rparr>"

text \<open>
  A topic PDU of one room: identifier, origin, depth, power level and predecessor
  (identifier and origin of the previous state, or none).
\<close>

definition topic_pdu :: "string \<Rightarrow> string \<Rightarrow> int \<Rightarrow> int \<Rightarrow> (string \<times> string) option \<Rightarrow> pdu" where
  "topic_pdu p_id srv d pl prev =
     \<lparr>pdu_id = p_id, origin = srv, pdu_context = ''!room:hs'', pdu_type = ''m.room.topic'',
      state_key = [], depth = d, power_level = pl,
      prev_state_id = map_option fst prev, prev_state_origin = map_option snd prev\<rparr>"

text \<open>The root \<open>Z\<close> of the slot's history and two successors of it on different servers.\<close>

definition pdu_Z :: pdu where
  "pdu_Z = topic_pdu ''Z'' ''z.org'' 1 10 None"

definition pdu_A0 :: pdu where
  "pdu_A0 = topic_pdu ''A0'' ''a0.org'' 2 10 (Some (''Z'', ''z.org''))"

definition pdu_A :: pdu where
  "pdu_A = topic_pdu ''A'' ''a.org'' 3 10 (Some (''A0'', ''a0.org''))"

definition pdu_N0 :: pdu where
  "pdu_N0 = topic_pdu ''N0'' ''n0.org'' 2 20 (Some (''Z'', ''z.org''))"

definition pdu_N :: pdu where
  "pdu_N = topic_pdu ''N'' ''n.org'' 3 5 (Some (''N0'', ''n0.org''))"

text \<open>
  Two successors of \<open>Z\<close> whose identifiers and origins differ and concatenate to the same
  string, \<^verbatim>\<open>a10.example.org\<close>.
\<close>

definition pdu_X1 :: pdu where
  "pdu_X1 = topic_pdu ''a1'' ''0.example.org'' 2 10 (Some (''Z'', ''z.org''))"

definition pdu_X2 :: pdu where
  "pdu_X2 = topic_pdu ''a'' ''10.example.org'' 2 10 (Some (''Z'', ''z.org''))"

text \<open>
  Two scripts over these PDUs, for the new PDU \<open>N\<close> (history \<open>Z\<close>, \<open>N0\<close>, \<open>N\<close>) against the
  current state \<open>A\<close> (history \<open>Z\<close>, \<open>A0\<close>, \<open>A\<close>). In \<open>gap_script\<close> the service first holds
  \<open>N\<close> and \<open>A\<close> alone and every fetch adds the requested predecessor, so that the branches
  meet in \<open>Z\<close> after three fetches. In \<open>short_gap_script\<close> the new PDU is \<open>N0\<close>, whose branch
  reaches \<open>Z\<close> at once, and the current branch lacks \<open>A0\<close> until the first fetch.
\<close>

definition gap_script :: "nat \<Rightarrow> error + pdu list \<times> pdu list" where
  "gap_script w =
     Inr (if w = 0 then ([pdu_N], [pdu_A])
          else if w = 1 then ([pdu_N, pdu_N0], [pdu_A])
          else if w = 2 then ([pdu_N, pdu_N0], [pdu_A, pdu_A0])
          else ([pdu_N, pdu_N0, pdu_Z], [pdu_A, pdu_A0, pdu_Z]))"

definition short_gap_script :: "nat \<Rightarrow> error + pdu list \<times> pdu list" where
  "short_gap_script w =
     Inr (if w = 0 then ([pdu_N0, pdu_Z], [pdu_A])
          else ([pdu_N0, pdu_Z], [pdu_A, pdu_A0, pdu_Z]))"

text \<open>
  The calls a run of the resolver for \<open>new_pdu\<close> may make: the state-tree query for that
  PDU, a fetch marked as outlier, and the tiebreak methods. Every other call (a current-state
  query or update, a callback) is none of them.
\<close>

definition resolver_call :: "pdu \<Rightarrow> call \<Rightarrow> bool" where
  "resolver_call new_pdu c =
     (case c of
        GetUnresolvedStateTree p \<Rightarrow> p = new_pdu
      | GetPdu destination pdu_origin p_id outlier \<Rightarrow> outlier
      | ConflictRes a \<Rightarrow> True
      | _ \<Rightarrow> False)"

text \<open>
  The world after the fetches of a trace, made in order from the world \<open>w\<close>: no other call
  of a trace changes the world.
\<close>

fun replay :: "'w StateHandler \<Rightarrow> call list \<Rightarrow> 'w \<Rightarrow> 'w" where
  "replay self [] w = w"
| "replay self (GetPdu destination pdu_origin p_id outlier # tr) w =
     replay self tr (snd (get_pdu self w destination pdu_origin p_id outlier))"
| "replay self (c # tr) w = replay self tr w"

text \<open>
  \<open>same_lock s s'\<close>: the lock table and the deferreds are in \<open>s'\<close> as they were in \<open>s\<close>.
  \<open>resolver_run self new_pdu s s'\<close>: moreover the trace of \<open>s'\<close> is that of \<open>s\<close> followed by
  resolver calls only, and the world of \<open>s'\<close> is that of \<open>s\<close> after the fetches among them.
\<close>

definition same_lock :: "'w state \<Rightarrow> 'w state \<Rightarrow> bool" where
  "same_lock s s' =
     (update_deferreds s' = update_deferreds s \<and> called s' = called s \<and>
      allocated s' = allocated s)"

definition resolver_run :: "'w StateHandler \<Rightarrow> pdu \<Rightarrow> 'w state \<Rightarrow> 'w state \<Rightarrow> bool" where
  "resolver_run self new_pdu s s' =
     (same_lock s s' \<and>
      (\<exists>tr. trace s' = trace s @ tr \<and> list_all (resolver_call new_pdu) tr \<and>
            world s' = replay self tr (world s)))"

text \<open>
  What invoking the caller's callback \<open>f\<close> with the new PDU in world \<open>w\<close> comes to: the
  callback is applied; when it raises, that is the outcome; the value it returns is
  called in turn, which raises \<^verbatim>\<open>TypeError\<close> for a value that is not callable and otherwise
  runs it; only a callable that runs through lets \<^verbatim>\<open>handle_new_state\<close> return \<open>True\<close>. The
  world is the one the last of these steps left.
\<close>

definition callback_invoked :: "(pdu, 'w) callback \<Rightarrow> pdu \<Rightarrow> 'w \<Rightarrow> bool outcome \<times> 'w" where
  "callback_invoked f new_pdu w =
     (case f new_pdu w of
        (Inl e, w1) \<Rightarrow> (Raised e, w1)
      | (Inr NotCallable, w1) \<Rightarrow> (Raised TypeError, w1)
      | (Inr (Callable g), w1) \<Rightarrow>
          (case g w1 of (Inl e, w2) \<Rightarrow> (Raised e, w2) | (Inr u, w2) \<Rightarrow> (Returned True, w2)))"

text \<open>
  What a call of \<^verbatim>\<open>handle_new_state\<close> that went on from state \<open>s\<close> and ended with outcome
  \<open>r\<close> in state \<open>s'\<close> has done: the resolver ran from \<open>s\<close> and returned some \<open>v\<close>, having made
  resolver calls only and changed the world by its fetches only; then, when \<open>v\<close> is the
  verdict \<open>True\<close> and a callback was given, the callback was invoked once, and otherwise
  nothing more was called, the world stayed, and \<open>r\<close> is what the resolver gave.
\<close>

definition admission ::
  "'w StateHandler \<Rightarrow> pdu \<Rightarrow> (pdu, 'w) callback option \<Rightarrow> 'w state \<Rightarrow> bool outcome \<Rightarrow>
     'w state \<Rightarrow> bool" where
  "admission self new_pdu cb s r s' =
     (\<exists>v s1 tr.
        u_handle_new_state self new_pdu s = Some (v, s1) \<and>
        trace s1 = trace s @ tr \<and> list_all (resolver_call new_pdu) tr \<and>
        world s1 = replay self tr (world s) \<and>
        (case (if v = Inr True then cb else None) of
           None \<Rightarrow>
             trace s' = trace s1 \<and> world s' = world s1 \<and>
             r = (case v of Inl e \<Rightarrow> Raised e | Inr is_new \<Rightarrow> Returned is_new)
         | Some f \<Rightarrow>
             trace s' = trace s1 @ [StateCallback new_pdu] \<and>
             (r, world s') = callback_invoked f new_pdu (world s1)))"

text \<open>
  A persistence service that stores a current state beside the script's counter: the
  world is the pair of both, a fetch advances the counter and leaves the current state,
  and \<^verbatim>\<open>get_current_state\<close> answers with the stored one. \<open>make_current\<close> is a callback that
  returns a callable which stores the PDU it was given as the current state. In
  \<open>losing_script\<close> the new PDU \<open>A0\<close> meets the current state \<open>N\<close> of greater power.
\<close>

definition stored ::
  "(nat \<Rightarrow> error + pdu list \<times> pdu list) \<Rightarrow> (nat \<times> current_state option) StateHandler" where
  "stored trees =
     \<lparr>get_current_state = (\<lambda>w k_context k_type k_state_key. Inr (snd w)),
      get_unresolved_state_tree = (\<lambda>w new_pdu. trees (fst w)),
      get_pdu = (\<lambda>w destination pdu_origin p_id outlier. (Inr (), (Suc (fst w), snd w))),
      service = None,
      persistence = None,
      server_name = None\<rparr>"

definition make_current :: "(pdu, nat \<times> current_state option) callback" where
  "make_current p w =
     (Inr (Callable (\<lambda>w'. (Inr (), (fst w', Some \<lparr>cs_pdu_id = pdu_id p, cs_origin = origin p\<rparr>)))),
      w)"

definition current_A :: current_state where
  "current_A = \<lparr>cs_pdu_id = ''A'', cs_origin = ''a.org''\<rparr>"

definition losing_script :: "nat \<Rightarrow> error + pdu list \<times> pdu list" where
  "losing_script w = Inr ([pdu_A0, pdu_Z], [pdu_N, pdu_N0, pdu_Z])"

text \<open>
  An event draft for the topic slot of the same room; a handler whose three attributes
  missing after \<^verbatim>\<open>__init__\<close> have been supplied (two latest PDUs, of depths 3 and 2); one
  whose persistence service has a current state for every slot; a callback that returns
  a callable doing nothing, and one that returns \<^verbatim>\<open>None\<close>.
\<close>

definition topic_event :: event where
  "topic_event =
     \<lparr>room_id = ''!room:hs'', event_type = ''m.room.topic'', event_state_key = [],
      event_id = ''E'', prev_events = [], event_depth = 0,
      event_prev_state_id = [], event_prev_state_origin = []\<rparr>"

definition with_service :: "nat StateHandler \<Rightarrow> nat StateHandler" where
  "with_service self =
     self\<lparr>service := Some (\<lambda>w room. Inr [(''A'', ''a.org'', 3), (''N0'', ''n0.org'', 2)]),
          persistence := Some (\<lambda>w p_id p_origin k_context k_type k_state_key. (Inr (), w)),
          server_name := Some ''hs''\<rparr>"

definition with_current_state :: "nat StateHandler \<Rightarrow> nat StateHandler" where
  "with_current_state self =
     self\<lparr>get_current_state :=
            (\<lambda>w k_context k_type k_state_key. Inr (Some \<lparr>cs_pdu_id = ''A'', cs_origin = ''a.org''\<rparr>))\<rparr>"

definition accepting :: "('a, nat) callback" where
  "accepting x w = (Inr (Callable (\<lambda>w'. (Inr (), w'))), w)"

definition returns_none :: "('a, nat) callback" where
  "returns_none x w = (Inr NotCallable, w)"

text \<open>
  A state tree has a gap when both branches are non-empty and end in different PDUs: the
  case in which the resolver fetches. \<open>fetch_of\<close> is the fetch it then makes.
\<close>

definition gap :: "pdu list \<times> pdu list \<Rightarrow> bool" where
  "gap tree =
     (case tree of (new_branch, current_branch) \<Rightarrow>
        new_branch \<noteq> [] \<and> current_branch \<noteq> [] \<and> last new_branch \<noteq> last current_branch)"

definition fetch_of :: "'w StateHandler \<Rightarrow> 'w \<Rightarrow> pdu list \<times> pdu list \<Rightarrow> (error + unit) \<times> 'w" where
  "fetch_of self w tree =
     (case tree of (new_branch, current_branch) \<Rightarrow>
        let m = py_max2 depth (last new_branch) (last current_branch)
        in get_pdu self w (origin m) (prev_state_origin m) (prev_state_id m) True)"

text \<open>
  The precondition of gap filling in the specification's words, for a room of \<open>n\<close> events:
  the branches of a tree with a gap have at most \<open>n\<close> elements together, and when the fetch
  made for such a tree succeeds, at least one branch of the tree the service returns next
  is strictly longer than it was.
\<close>

definition some_branch_grows :: "'w StateHandler \<Rightarrow> pdu \<Rightarrow> nat \<Rightarrow> bool" where
  "some_branch_grows self new_pdu n =
     (\<forall>w nb cb. get_unresolved_state_tree self w new_pdu = Inr (nb, cb) \<and> gap (nb, cb) \<longrightarrow>
        length nb + length cb \<le> n \<and>
        (\<forall>u w' nb' cb'.
           fetch_of self w (nb, cb) = (Inr u, w') \<and>
           get_unresolved_state_tree self w' new_pdu = Inr (nb', cb') \<longrightarrow>
           length nb < length nb' \<or> length cb < length cb'))"

text \<open>
  The precondition under which gap filling ends: the branches of a tree with a gap have
  at most \<open>n\<close> elements together, and when the fetch made for such a tree succeeds and the
  tree the service returns next still has a gap, that tree has more elements in all.
  Nothing is asked of a next tree whose branches converge, and a branch may get shorter
  as long as the two together get longer.
\<close>

definition fetch_grows :: "'w StateHandler \<Rightarrow> pdu \<Rightarrow> nat \<Rightarrow> bool" where
  "fetch_grows self new_pdu n =
     (\<forall>w nb cb. get_unresolved_state_tree self w new_pdu = Inr (nb, cb) \<and> gap (nb, cb) \<longrightarrow>
        length nb + length cb \<le> n \<and>
        (\<forall>u w' nb' cb'.
           fetch_of self w (nb, cb) = (Inr u, w') \<and>
           get_unresolved_state_tree self w' new_pdu = Inr (nb', cb') \<and> gap (nb', cb') \<longrightarrow>
           length nb + length cb < length nb' + length cb'))"

text \<open>
  Two more scripts. In \<open>alt_script\<close> the service forgets on one side what a fetch adds on
  the other: the branches are in turn \<open>[N, N0]\<close> with \<open>[A]\<close> and \<open>[N]\<close> with \<open>[A, A0]\<close>. In
  \<open>trunc_script\<close> the new PDU is \<open>M\<close>, a successor of \<open>M0\<close>, itself a successor of \<open>A0\<close>: before
  \<open>M0\<close> is fetched the current branch runs back to the root \<open>Z\<close>, and afterwards both
  branches stop at the common PDU \<open>A0\<close>, so that the current branch has got shorter.
\<close>

definition pdu_M0 :: pdu where
  "pdu_M0 = topic_pdu ''M0'' ''m0.org'' 3 20 (Some (''A0'', ''a0.org''))"

definition pdu_M :: pdu where
  "pdu_M = topic_pdu ''M'' ''m.org'' 4 5 (Some (''M0'', ''m0.org''))"

definition alt_script :: "nat \<Rightarrow> error + pdu list \<times> pdu list" where
  "alt_script w =
     Inr (if even w then ([pdu_N, pdu_N0], [pdu_A]) else ([pdu_N], [pdu_A, pdu_A0]))"

definition trunc_script :: "nat \<Rightarrow> error + pdu list \<times> pdu list" where
  "trunc_script w =
     Inr (if w = 0 then ([pdu_M], [pdu_A, pdu_A0, pdu_Z])
          else ([pdu_M, pdu_M0, pdu_A0], [pdu_A, pdu_A0]))"

text \<open>
  The fetches a run started in world \<open>w\<close> can still need: none when the tree has no gap
  (or the query fails), and otherwise one more than the room has events beyond those the
  two branches hold. \<open>fetches\<close> counts the \<^verbatim>\<open>get_pdu\<close> calls of a trace.
\<close>

definition rounds_left :: "'w StateHandler \<Rightarrow> pdu \<Rightarrow> nat \<Rightarrow> 'w \<Rightarrow> nat" where
  "rounds_left self new_pdu n w =
     (case get_unresolved_state_tree self w new_pdu of
        Inl e \<Rightarrow> 0
      | Inr (nb, cb) \<Rightarrow> if gap (nb, cb) then n + 1 - (length nb + length cb) else 0)"

definition is_fetch :: "call \<Rightarrow> bool" where
  "is_fetch c = (case c of GetPdu destination pdu_origin p_id outlier \<Rightarrow> True | _ \<Rightarrow> False)"

definition fetches :: "'w state \<Rightarrow> nat" where
  "fetches s = length (filter is_fetch (trace s))"

section \<open>Python's \<^verbatim>\<open>max\<close> and the power-level scores\<close>

lemma Max_insert_insert:
  fixes a b :: int
  assumes "finite S"
  shows "Max (insert a (insert b S)) = Max (insert (max a b) S)"
  using assms by (cases "S = {}") (simp_all add: max.assoc)

lemma foldl_max_key:
  fixes f :: "'a \<Rightarrow> int"
  shows "f (foldl (\<lambda>m y. if f m < f y then y else m) x xs) = Max (insert (f x) (f ` set xs))"
proof (induction xs arbitrary: x)
  case Nil
  then show ?case by simp
next
  case (Cons y ys)
  have "f (if f x < f y then y else x) = max (f x) (f y)"
    by (simp add: max_def)
  then show ?case
    using Cons[of "if f x < f y then y else x"] Max_insert_insert[of "f ` set ys" "f x" "f y"]
    by simp
qed

lemma py_max_key_power:
  fixes f :: "'a \<Rightarrow> int"
  assumes "xs \<noteq> []"
  shows "\<exists>m. py_max_key f xs = Inr m \<and> f m = Max (f ` set xs)"
  using assms foldl_max_key[of f] by (cases xs) auto

lemma power_level_scores:
  assumes "1 < length new_branch" and "1 < length current_branch"
  shows "u_do_power_level_conflict_res new_branch current_branch =
           Inr (IntScore (max_power new_branch), IntScore (max_power current_branch))"
proof -
  have "butlast new_branch \<noteq> []" "butlast current_branch \<noteq> []"
    using assms by (auto simp: butlast_conv_take)
  then obtain m n where "py_max_key power_level (butlast new_branch) = Inr m"
      "power_level m = max_power new_branch"
      "py_max_key power_level (butlast current_branch) = Inr n"
      "power_level n = max_power current_branch"
    unfolding max_power_def using py_max_key_power[of _ power_level] by metis
  then show ?thesis by (simp add: u_do_power_level_conflict_res_def)
qed

lemma run_conflict_res_verdict:
  assumes "1 < length new_branch" and "1 < length current_branch"
  shows "run_conflict_res conflict_res new_branch current_branch s =
           (tiebreak_verdict new_branch current_branch,
            s\<lparr>trace := trace s @ map ConflictRes (tiebreaks_run new_branch current_branch)\<rparr>)"
  using power_level_scores[OF assms]
  by (auto simp: conflict_res_def tiebreak_verdict_def tiebreaks_run_def Let_def digest_def
        u_do_chain_length_conflict_res_def u_do_hash_conflict_res_def)

section \<open>One round of the resolver\<close>

lemma resolve_no_current:
  assumes "get_unresolved_state_tree self (world s) new_pdu = Inr (new_branch, [])"
  shows "u_handle_new_state self new_pdu s =
           Some (Inr True, s\<lparr>trace := trace s @ [GetUnresolvedStateTree new_pdu]\<rparr>)"
  using assms by (subst u_handle_new_state.simps) simp

lemma resolve_direct:
  assumes "get_unresolved_state_tree self (world s) new_pdu = Inr (new_branch, current_branch)"
      and "new_branch \<noteq> []" and "last new_branch = last current_branch"
      and "length current_branch = 1"
  shows "u_handle_new_state self new_pdu s =
           Some (Inr True, s\<lparr>trace := trace s @ [GetUnresolvedStateTree new_pdu]\<rparr>)"
  using assms by (subst u_handle_new_state.simps) (auto simp: py_last_def Let_def)

lemma resolve_converging:
  assumes "get_unresolved_state_tree self (world s) new_pdu = Inr (new_branch, current_branch)"
      and "new_branch \<noteq> []" and "last new_branch = last current_branch"
      and "1 < length current_branch"
  shows "u_handle_new_state self new_pdu s =
           Some (run_conflict_res conflict_res new_branch current_branch
                   (s\<lparr>trace := trace s @ [GetUnresolvedStateTree new_pdu]\<rparr>))"
  using assms by (subst u_handle_new_state.simps) (auto simp: py_last_def Let_def)

lemma resolve_diverging:
  assumes "get_unresolved_state_tree self (world s) new_pdu = Inr (new_branch, current_branch)"
      and "new_branch \<noteq> []" and "current_branch \<noteq> []"
      and "last new_branch \<noteq> last current_branch"
      and "m = py_max2 depth (last new_branch) (last current_branch)"
      and "get_pdu self (world s) (origin m) (prev_state_origin m) (prev_state_id m) True = (r, w)"
      and "s' = s\<lparr>world := w,
                   trace := trace s @ [GetUnresolvedStateTree new_pdu,
                     GetPdu (origin m) (prev_state_origin m) (prev_state_id m) True]\<rparr>"
  shows "u_handle_new_state self new_pdu s =
           (case r of Inl e \<Rightarrow> Some (Inl e, s') | Inr _ \<Rightarrow> u_handle_new_state self new_pdu s')"
  using assms
  by (subst u_handle_new_state.simps) (simp add: py_last_def Let_def split: sum.splits)

section \<open>The public method once the lock is free\<close>

lemma u_lock_free:
  assumes "lock_free s key"
  shows "u_lock key d (s\<lparr>allocated := n\<rparr>) =
           (True, s\<lparr>allocated := n, update_deferreds := (update_deferreds s)(key \<mapsto> d)\<rparr>)"
  using assms by (auto simp: u_lock_def lock_free_def Let_def split: option.splits)

lemma after_lock:
  "snd (u_lock key d (s\<lparr>allocated := n\<rparr>)) =
     s\<lparr>allocated := n, update_deferreds := (update_deferreds s)(key \<mapsto> d)\<rparr>"
  by (simp add: u_lock_def Let_def split: option.splits)

lemma handle_new_state_cases:
  assumes "handle_new_state self new_pdu cb s = Some (r, s')"
  shows "r = Waiting \<and>
           s' = s\<lparr>allocated := Suc (allocated s),
                   update_deferreds := (update_deferreds s)(pdu_key new_pdu \<mapsto> allocated s)\<rparr> \<or>
         handle_new_state_resume self new_pdu cb (allocated s)
           (s\<lparr>allocated := Suc (allocated s),
              update_deferreds := (update_deferreds s)(pdu_key new_pdu \<mapsto> allocated s)\<rparr>) =
           Some (r, s')"
proof -
  obtain b s0 where l: "u_lock (pdu_key new_pdu) (allocated s) (s\<lparr>allocated := Suc (allocated s)\<rparr>) = (b, s0)"
    by (cases "u_lock (pdu_key new_pdu) (allocated s) (s\<lparr>allocated := Suc (allocated s)\<rparr>)")
  then have "s0 = s\<lparr>allocated := Suc (allocated s),
                   update_deferreds := (update_deferreds s)(pdu_key new_pdu \<mapsto> allocated s)\<rparr>"
    using after_lock[where key = "pdu_key new_pdu" and d = "allocated s" and s = s
        and n = "Suc (allocated s)"] by simp
  then show ?thesis
    using assms l by (cases b) (simp_all add: handle_new_state_def Let_def pdu_key_def)
qed

lemma handle_new_state_no_callback:
  assumes "lock_free s (pdu_key new_pdu)"
      and "u_handle_new_state self new_pdu
             (s\<lparr>allocated := Suc (allocated s),
                update_deferreds := (update_deferreds s)(pdu_key new_pdu \<mapsto> allocated s)\<rparr>) =
           Some (Inr v, s1)"
  shows "handle_new_state self new_pdu None s = Some (Returned v, fire (allocated s) s1)"
  using assms(2) u_lock_free[OF assms(1)]
  by (simp add: handle_new_state_def handle_new_state_resume_def handle_new_state_try_def
        Let_def pdu_key_def)

lemma handle_new_state_with_callback:
  assumes "lock_free s (pdu_key new_pdu)"
      and "u_handle_new_state self new_pdu
             (s\<lparr>allocated := Suc (allocated s),
                update_deferreds := (update_deferreds s)(pdu_key new_pdu \<mapsto> allocated s)\<rparr>) =
           Some (Inr True, s1)"
  shows "\<exists>r s'. handle_new_state self new_pdu (Some cb) s = Some (r, s') \<and>
           (r = Returned True \<or> (\<exists>e. r = Raised e)) \<and> StateCallback new_pdu \<in> set (trace s')"
  using assms(2) u_lock_free[OF assms(1)]
  by (auto simp: handle_new_state_def handle_new_state_resume_def handle_new_state_try_def
        Let_def pdu_key_def call_back_def maybeDeferred_def fire_def
        split: sum.splits prod.splits callable.splits)

section \<open>No current state, and the direct successor\<close>

text \<open>
  C6. When the persistence service returns an empty current branch, the resolver
  \<^verbatim>\<open>_handle_new_state\<close> returns \<open>True\<close> whatever the new branch is, and the query is all it
  does: no tiebreak method is called and nothing is fetched. A call of
  \<^verbatim>\<open>handle_new_state\<close> that finds the key's lock free then returns \<open>True\<close> when it was
  given no callback; given one, it invokes it with the PDU and returns \<open>True\<close> unless the
  callback's call raises.
\<close>

theorem first_writer_wins:
  assumes "get_unresolved_state_tree self (world s) new_pdu = Inr (new_branch, [])"
  shows "u_handle_new_state self new_pdu s =
           Some (Inr True, s\<lparr>trace := trace s @ [GetUnresolvedStateTree new_pdu]\<rparr>) \<and>
         (lock_free s (pdu_key new_pdu) \<longrightarrow>
            map_option fst (handle_new_state self new_pdu None s) = Some (Returned True) \<and>
            (\<exists>r s'. handle_new_state self new_pdu (Some cb) s = Some (r, s') \<and>
               (r = Returned True \<or> (\<exists>e. r = Raised e)) \<and>
               StateCallback new_pdu \<in> set (trace s')))"
proof (intro conjI impI)
  show "u_handle_new_state self new_pdu s =
          Some (Inr True, s\<lparr>trace := trace s @ [GetUnresolvedStateTree new_pdu]\<rparr>)"
    using assms by (rule resolve_no_current)
next
  let ?s0 = "s\<lparr>allocated := Suc (allocated s),
                update_deferreds := (update_deferreds s)(pdu_key new_pdu \<mapsto> allocated s)\<rparr>"
  assume free: "lock_free s (pdu_key new_pdu)"
  have run: "u_handle_new_state self new_pdu ?s0 =
               Some (Inr True, ?s0\<lparr>trace := trace ?s0 @ [GetUnresolvedStateTree new_pdu]\<rparr>)"
    using assms by (intro resolve_no_current[where new_branch = new_branch]) simp
  show "map_option fst (handle_new_state self new_pdu None s) = Some (Returned True)"
    using handle_new_state_no_callback[OF free run] by simp
  show "\<exists>r s'. handle_new_state self new_pdu (Some cb) s = Some (r, s') \<and>
          (r = Returned True \<or> (\<exists>e. r = Raised e)) \<and> StateCallback new_pdu \<in> set (trace s')"
    using handle_new_state_with_callback[OF free run] .
qed

theorem first_writer_wins_witness:
  "get_unresolved_state_tree (scripted (\<lambda>w. Inr ([pdu_N], [])) (\<lambda>w. Inr ()))
     (world (initial 0)) pdu_N = Inr ([pdu_N], []) \<and>
   lock_free (initial (0::nat)) (pdu_key pdu_N) \<and>
   u_handle_new_state (scripted (\<lambda>w. Inr ([pdu_N], [])) (\<lambda>w. Inr ())) pdu_N (initial 0) =
     Some (Inr True, (initial 0)\<lparr>trace := [GetUnresolvedStateTree pdu_N]\<rparr>) \<and>
   map_option fst
     (handle_new_state (scripted (\<lambda>w. Inr ([pdu_N], [])) (\<lambda>w. Inr ())) pdu_N None (initial 0)) =
     Some (Returned True)"
  using first_writer_wins
          [of "scripted (\<lambda>w. Inr ([pdu_N], [])) (\<lambda>w. Inr ())" "initial 0" pdu_N "[pdu_N]"]
  by (simp add: scripted_def initial_def lock_free_def)

text \<open>
  C7. When the branches converge (the new branch is not empty and both end in the same
  PDU) and the current branch has exactly one element, the resolver \<^verbatim>\<open>_handle_new_state\<close>
  returns \<open>True\<close> and the query is all it does: none of the three tiebreak methods is
  called, whatever the new branch is (also one on which the power-level method would
  raise). A call of \<^verbatim>\<open>handle_new_state\<close> that finds the key's lock free then returns
  \<open>True\<close> when it was given no callback; given one, it invokes it with the PDU and returns
  \<open>True\<close> unless the callback's call raises.
\<close>

theorem direct_descendant_clobber:
  assumes "get_unresolved_state_tree self (world s) new_pdu = Inr (new_branch, current_branch)"
      and "new_branch \<noteq> []" and "last new_branch = last current_branch"
      and "length current_branch = 1"
  shows "u_handle_new_state self new_pdu s =
           Some (Inr True, s\<lparr>trace := trace s @ [GetUnresolvedStateTree new_pdu]\<rparr>) \<and>
         (lock_free s (pdu_key new_pdu) \<longrightarrow>
            map_option fst (handle_new_state self new_pdu None s) = Some (Returned True) \<and>
            (\<exists>r s'. handle_new_state self new_pdu (Some cb) s = Some (r, s') \<and>
               (r = Returned True \<or> (\<exists>e. r = Raised e)) \<and>
               StateCallback new_pdu \<in> set (trace s')))"
proof (intro conjI impI)
  show "u_handle_new_state self new_pdu s =
          Some (Inr True, s\<lparr>trace := trace s @ [GetUnresolvedStateTree new_pdu]\<rparr>)"
    using assms by (rule resolve_direct)
next
  let ?s0 = "s\<lparr>allocated := Suc (allocated s),
                update_deferreds := (update_deferreds s)(pdu_key new_pdu \<mapsto> allocated s)\<rparr>"
  assume free: "lock_free s (pdu_key new_pdu)"
  have "get_unresolved_state_tree self (world ?s0) new_pdu = Inr (new_branch, current_branch)"
    using assms(1) by simp
  then have run: "u_handle_new_state self new_pdu ?s0 =
               Some (Inr True, ?s0\<lparr>trace := trace ?s0 @ [GetUnresolvedStateTree new_pdu]\<rparr>)"
    using assms(2-4) by (rule resolve_direct)
  show "map_option fst (handle_new_state self new_pdu None s) = Some (Returned True)"
    using handle_new_state_no_callback[OF free run] by simp
  show "\<exists>r s'. handle_new_state self new_pdu (Some cb) s = Some (r, s') \<and>
          (r = Returned True \<or> (\<exists>e. r = Raised e)) \<and> StateCallback new_pdu \<in> set (trace s')"
    using handle_new_state_with_callback[OF free run] .
qed

theorem direct_descendant_clobber_witness:
  "get_unresolved_state_tree (scripted (\<lambda>w. Inr ([pdu_A0, pdu_Z], [pdu_Z])) (\<lambda>w. Inr ()))
     (world (initial 0)) pdu_A0 = Inr ([pdu_A0, pdu_Z], [pdu_Z]) \<and>
   [pdu_A0, pdu_Z] \<noteq> [] \<and> last [pdu_A0, pdu_Z] = last [pdu_Z] \<and> length [pdu_Z] = 1 \<and>
   lock_free (initial (0::nat)) (pdu_key pdu_A0) \<and>
   u_handle_new_state (scripted (\<lambda>w. Inr ([pdu_A0, pdu_Z], [pdu_Z])) (\<lambda>w. Inr ())) pdu_A0
     (initial 0) = Some (Inr True, (initial 0)\<lparr>trace := [GetUnresolvedStateTree pdu_A0]\<rparr>) \<and>
   map_option fst
     (handle_new_state (scripted (\<lambda>w. Inr ([pdu_A0, pdu_Z], [pdu_Z])) (\<lambda>w. Inr ())) pdu_A0 None
        (initial 0)) = Some (Returned True)"
  using direct_descendant_clobber
          [of "scripted (\<lambda>w. Inr ([pdu_A0, pdu_Z], [pdu_Z])) (\<lambda>w. Inr ())" "initial 0" pdu_A0
              "[pdu_A0, pdu_Z]" "[pdu_Z]"]
  by (simp add: scripted_def initial_def lock_free_def)

section \<open>The tiebreak pipeline\<close>

text \<open>
  C1, as the code has it. When the branches converge and both have more than one element,
  the resolver returns what the first comparator with unequal scores says, in the order
  power level, chain length, content hash (more than one of them may be unequal), having
  called the comparators up to that one and no other. It raises
  \<^verbatim>\<open>Exception("Conflict resolution failed.")\<close> exactly when the branches have the same
  greatest power level, the same length and the same digest of their concatenated
  \<^verbatim>\<open>pdu_id + origin\<close> strings.
\<close>

theorem tiebreak_first_unequal_decides:
  assumes "get_unresolved_state_tree self (world s) new_pdu = Inr (new_branch, current_branch)"
      and "last new_branch = last current_branch"
      and "1 < length current_branch" and "1 < length new_branch"
  shows "u_handle_new_state self new_pdu s =
           Some (tiebreak_verdict new_branch current_branch,
                 s\<lparr>trace := trace s @ GetUnresolvedStateTree new_pdu #
                               map ConflictRes (tiebreaks_run new_branch current_branch)\<rparr>) \<and>
         (tiebreak_verdict new_branch current_branch = Inl (Exception ''Conflict resolution failed.'')
            \<longleftrightarrow> max_power new_branch = max_power current_branch \<and>
                length new_branch = length current_branch \<and>
                digest new_branch = digest current_branch)"
proof
  have "new_branch \<noteq> []" using assms(4) by auto
  then show "u_handle_new_state self new_pdu s =
           Some (tiebreak_verdict new_branch current_branch,
                 s\<lparr>trace := trace s @ GetUnresolvedStateTree new_pdu #
                               map ConflictRes (tiebreaks_run new_branch current_branch)\<rparr>)"
    using resolve_converging[OF assms(1) _ assms(2,3)]
      run_conflict_res_verdict[OF assms(4,3),
        of "s\<lparr>trace := trace s @ [GetUnresolvedStateTree new_pdu]\<rparr>"] by simp
next
  show "tiebreak_verdict new_branch current_branch = Inl (Exception ''Conflict resolution failed.'')
            \<longleftrightarrow> max_power new_branch = max_power current_branch \<and>
                length new_branch = length current_branch \<and>
                digest new_branch = digest current_branch"
    by (simp add: tiebreak_verdict_def)
qed

theorem tiebreak_first_unequal_decides_witness:
  "get_unresolved_state_tree
     (scripted (\<lambda>w. Inr ([pdu_N, pdu_N0, pdu_Z], [pdu_A, pdu_A0, pdu_Z])) (\<lambda>w. Inr ()))
     (world (initial 0)) pdu_N = Inr ([pdu_N, pdu_N0, pdu_Z], [pdu_A, pdu_A0, pdu_Z]) \<and>
   last [pdu_N, pdu_N0, pdu_Z] = last [pdu_A, pdu_A0, pdu_Z] \<and>
   1 < length [pdu_A, pdu_A0, pdu_Z] \<and> 1 < length [pdu_N, pdu_N0, pdu_Z] \<and>
   u_handle_new_state
     (scripted (\<lambda>w. Inr ([pdu_N, pdu_N0, pdu_Z], [pdu_A, pdu_A0, pdu_Z])) (\<lambda>w. Inr ()))
     pdu_N (initial 0) =
     Some (Inr True,
           (initial 0)\<lparr>trace := [GetUnresolvedStateTree pdu_N, ConflictRes PowerLevel]\<rparr>)"
  using tiebreak_first_unequal_decides
          [of "scripted (\<lambda>w. Inr ([pdu_N, pdu_N0, pdu_Z], [pdu_A, pdu_A0, pdu_Z])) (\<lambda>w. Inr ())"
              "initial 0" pdu_N "[pdu_N, pdu_N0, pdu_Z]" "[pdu_A, pdu_A0, pdu_Z]"]
  by (simp add: scripted_def initial_def tiebreak_verdict_def tiebreaks_run_def max_power_def
        pdu_N_def pdu_N0_def pdu_A_def pdu_A0_def pdu_Z_def topic_pdu_def)

text \<open>
  C1 as stated fails. The branches \<open>[X1, Z]\<close> and \<open>[X2, Z]\<close> share their last element and
  differ in the first (\<open>X1\<close> is \<^verbatim>\<open>a1\<close> of \<^verbatim>\<open>0.example.org\<close>, \<open>X2\<close> is \<^verbatim>\<open>a\<close> of
  \<^verbatim>\<open>10.example.org\<close>), yet no comparator tells them apart, the two digested strings being
  the same, and the resolver raises the final exception. And on \<open>[N, N0, Z]\<close> against
  \<open>[A0, Z]\<close> the power-level and the chain-length comparator are both strict.
\<close>

theorem tiebreak_not_total_counterexample:
  "last [pdu_X1, pdu_Z] = last [pdu_X2, pdu_Z] \<and> 1 < length [pdu_X2, pdu_Z] \<and>
   [pdu_X1, pdu_Z] \<noteq> [pdu_X2, pdu_Z] \<and>
   u_handle_new_state (scripted (\<lambda>w. Inr ([pdu_X1, pdu_Z], [pdu_X2, pdu_Z])) (\<lambda>w. Inr ()))
     pdu_X1 (initial 0) =
     Some (Inl (Exception ''Conflict resolution failed.''),
           (initial 0)\<lparr>trace := [GetUnresolvedStateTree pdu_X1, ConflictRes PowerLevel,
                                   ConflictRes ChainLength, ConflictRes ContentHash]\<rparr>) \<and>
   run_algo PowerLevel [pdu_N, pdu_N0, pdu_Z] [pdu_A0, pdu_Z] = Inr (IntScore 20, IntScore 10) \<and>
   run_algo ChainLength [pdu_N, pdu_N0, pdu_Z] [pdu_A0, pdu_Z] = Inr (IntScore 3, IntScore 2)"
  by (simp add: u_handle_new_state.simps scripted_def initial_def py_last_def Let_def
        conflict_res_def u_do_power_level_conflict_res_def u_do_chain_length_conflict_res_def
        u_do_hash_conflict_res_def branch_str_def
        pdu_X1_def pdu_X2_def pdu_N_def pdu_N0_def pdu_A0_def pdu_Z_def topic_pdu_def)

text \<open>
  C2 at a new PDU that is an ancestor of the current state: the new branch is \<open>[Z]\<close>, the
  current branch \<open>[A0, Z]\<close>. The branches converge and the current branch has two
  elements, but the power-level method takes \<^verbatim>\<open>max\<close> of the empty \<^verbatim>\<open>new_branch[:-1]\<close> and the
  resolver raises \<^verbatim>\<open>ValueError\<close> instead of returning a verdict; the chain-length method
  would score the pair one against two.
\<close>

theorem new_pdu_is_ancestor_raises:
  "last [pdu_Z] = last [pdu_A0, pdu_Z] \<and> 1 < length [pdu_A0, pdu_Z] \<and>
   u_handle_new_state (scripted (\<lambda>w. Inr ([pdu_Z], [pdu_A0, pdu_Z])) (\<lambda>w. Inr ())) pdu_Z
     (initial 0) =
     Some (Inl ValueError,
           (initial 0)\<lparr>trace := [GetUnresolvedStateTree pdu_Z, ConflictRes PowerLevel]\<rparr>) \<and>
   run_algo ChainLength [pdu_Z] [pdu_A0, pdu_Z] = Inr (IntScore 1, IntScore 2)"
  by (simp add: u_handle_new_state.simps scripted_def initial_def py_last_def Let_def
        conflict_res_def u_do_power_level_conflict_res_def u_do_chain_length_conflict_res_def
        pdu_A0_def pdu_Z_def topic_pdu_def)

section \<open>Diverging branches\<close>

text \<open>
  C3. When both branches are non-empty and their last elements differ, the resolver takes
  of the two last elements the one of greater depth (the new branch's on equal depths),
  calls \<^verbatim>\<open>get_pdu\<close> once, for that element's \<^verbatim>\<open>prev_state_origin\<close> and \<^verbatim>\<open>prev_state_id\<close>, with
  that element's \<^verbatim>\<open>origin\<close> as destination and \<^verbatim>\<open>outlier=True\<close>, and, the fetch having
  succeeded, goes on exactly as a fresh run of the resolver from the state the fetch left
  (which starts by querying the state tree again). A fetch that raises ends the run with
  that exception.
\<close>

theorem gap_fetch_deeper_then_rerun:
  assumes "get_unresolved_state_tree self (world s) new_pdu = Inr (new_branch, current_branch)"
      and "new_branch \<noteq> []" and "current_branch \<noteq> []"
      and "last new_branch \<noteq> last current_branch"
      and "m = (if depth (last new_branch) < depth (last current_branch)
                then last current_branch else last new_branch)"
      and "get_pdu self (world s) (origin m) (prev_state_origin m) (prev_state_id m) True = (r, w)"
      and "s' = s\<lparr>world := w,
                   trace := trace s @ [GetUnresolvedStateTree new_pdu,
                     GetPdu (origin m) (prev_state_origin m) (prev_state_id m) True]\<rparr>"
  shows "depth (last new_branch) \<le> depth m \<and> depth (last current_branch) \<le> depth m \<and>
         u_handle_new_state self new_pdu s =
           (case r of Inl e \<Rightarrow> Some (Inl e, s') | Inr _ \<Rightarrow> u_handle_new_state self new_pdu s')"
proof -
  have "m = py_max2 depth (last new_branch) (last current_branch)"
    using assms(5) by (simp add: py_max2_def)
  from resolve_diverging[OF assms(1-4) this assms(6,7)] assms(5)
  show ?thesis by simp
qed

theorem gap_fetch_deeper_then_rerun_witness:
  "get_unresolved_state_tree (scripted gap_script (\<lambda>w. Inr ())) (world (initial 0)) pdu_N =
     Inr ([pdu_N], [pdu_A]) \<and>
   [pdu_N] \<noteq> [] \<and> [pdu_A] \<noteq> [] \<and> last [pdu_N] \<noteq> last [pdu_A] \<and>
   pdu_N = (if depth (last [pdu_N]) < depth (last [pdu_A]) then last [pdu_A] else last [pdu_N]) \<and>
   get_pdu (scripted gap_script (\<lambda>w. Inr ())) (world (initial 0)) (origin pdu_N)
     (prev_state_origin pdu_N) (prev_state_id pdu_N) True = (Inr (), 1) \<and>
   u_handle_new_state (scripted gap_script (\<lambda>w. Inr ())) pdu_N (initial 0) =
     u_handle_new_state (scripted gap_script (\<lambda>w. Inr ())) pdu_N
       ((initial 0)\<lparr>world := 1,
          trace := [GetUnresolvedStateTree pdu_N,
                    GetPdu ''n.org'' (Some ''n0.org'') (Some ''N0'') True]\<rparr>)"
  using gap_fetch_deeper_then_rerun
          [of "scripted gap_script (\<lambda>w. Inr ())" "initial 0" pdu_N "[pdu_N]" "[pdu_A]" pdu_N
              "Inr ()" 1
              "(initial 0)\<lparr>world := 1,
                 trace := [GetUnresolvedStateTree pdu_N,
                           GetPdu ''n.org'' (Some ''n0.org'') (Some ''N0'') True]\<rparr>"]
  by (simp add: scripted_def initial_def gap_script_def pdu_N_def pdu_A_def topic_pdu_def)

text \<open>
  C4, as the code has it. When the new branch's last element has strictly lower depth than
  the current branch's last element, the one fetch of the round is made for the current
  branch's side: the predecessor of the current branch's last element, asked of that
  element's origin.
\<close>

theorem gap_fetch_current_side:
  assumes "get_unresolved_state_tree self (world s) new_pdu = Inr (new_branch, current_branch)"
      and "new_branch \<noteq> []" and "current_branch \<noteq> []"
      and "depth (last new_branch) < depth (last current_branch)"
      and "get_pdu self (world s) (origin (last current_branch))
             (prev_state_origin (last current_branch)) (prev_state_id (last current_branch)) True =
           (r, w)"
      and "s' = s\<lparr>world := w,
                   trace := trace s @ [GetUnresolvedStateTree new_pdu,
                     GetPdu (origin (last current_branch)) (prev_state_origin (last current_branch))
                       (prev_state_id (last current_branch)) True]\<rparr>"
  shows "u_handle_new_state self new_pdu s =
           (case r of Inl e \<Rightarrow> Some (Inl e, s') | Inr _ \<Rightarrow> u_handle_new_state self new_pdu s')"
proof -
  have "last new_branch \<noteq> last current_branch"
    using assms(4) by auto
  moreover have "last current_branch = py_max2 depth (last new_branch) (last current_branch)"
    using assms(4) by (simp add: py_max2_def)
  ultimately show ?thesis
    using resolve_diverging[OF assms(1-3) _ _ assms(5,6)] by simp
qed

theorem gap_fetch_current_side_witness:
  "get_unresolved_state_tree (scripted gap_script (\<lambda>w. Inr ())) (world (initial 1)) pdu_N =
     Inr ([pdu_N, pdu_N0], [pdu_A]) \<and>
   [pdu_N, pdu_N0] \<noteq> [] \<and> [pdu_A] \<noteq> [] \<and>
   depth (last [pdu_N, pdu_N0]) < depth (last [pdu_A]) \<and>
   get_pdu (scripted gap_script (\<lambda>w. Inr ())) (world (initial 1)) (origin (last [pdu_A]))
     (prev_state_origin (last [pdu_A])) (prev_state_id (last [pdu_A])) True = (Inr (), 2) \<and>
   u_handle_new_state (scripted gap_script (\<lambda>w. Inr ())) pdu_N (initial 1) =
     u_handle_new_state (scripted gap_script (\<lambda>w. Inr ())) pdu_N
       ((initial 1)\<lparr>world := 2,
          trace := [GetUnresolvedStateTree pdu_N,
                    GetPdu ''a.org'' (Some ''a0.org'') (Some ''A0'') True]\<rparr>)"
  using gap_fetch_current_side
          [of "scripted gap_script (\<lambda>w. Inr ())" "initial 1" pdu_N "[pdu_N, pdu_N0]" "[pdu_A]"
              "Inr ()" 2
              "(initial 1)\<lparr>world := 2,
                 trace := [GetUnresolvedStateTree pdu_N,
                           GetPdu ''a.org'' (Some ''a0.org'') (Some ''A0'') True]\<rparr>"]
  by (simp add: scripted_def initial_def gap_script_def pdu_N_def pdu_N0_def pdu_A_def topic_pdu_def)

text \<open>
  C4 as stated fails. The new branch \<open>[N0, Z]\<close> ends at depth 1, the current branch \<open>[A]\<close>
  at depth 3; the run makes one fetch, of \<open>A\<close>'s predecessor \<open>A0\<close> from \<open>A\<close>'s origin, and
  none for the predecessor of \<open>Z\<close>.
\<close>

theorem gap_fetch_new_side_counterexample:
  "depth (last [pdu_N0, pdu_Z]) < depth (last [pdu_A]) \<and>
   u_handle_new_state (scripted short_gap_script (\<lambda>w. Inr ())) pdu_N0 (initial 0) =
     Some (Inr True,
           (initial 0)\<lparr>world := 1,
              trace := [GetUnresolvedStateTree pdu_N0,
                        GetPdu ''a.org'' (Some ''a0.org'') (Some ''A0'') True,
                        GetUnresolvedStateTree pdu_N0,
                        ConflictRes PowerLevel]\<rparr>) \<and>
   GetPdu (origin pdu_A) (prev_state_origin pdu_A) (prev_state_id pdu_A) True =
     GetPdu ''a.org'' (Some ''a0.org'') (Some ''A0'') True \<and>
   GetPdu (origin pdu_Z) (prev_state_origin pdu_Z) (prev_state_id pdu_Z) True =
     GetPdu ''z.org'' None None True"
  by (simp add: u_handle_new_state.simps scripted_def initial_def short_gap_script_def
        py_last_def py_max2_def Let_def
        conflict_res_def u_do_power_level_conflict_res_def
        pdu_N0_def pdu_A_def pdu_A0_def pdu_Z_def topic_pdu_def)

section \<open>What a run may touch\<close>

lemma replay_append: "replay self (tr1 @ tr2) w = replay self tr2 (replay self tr1 w)"
  by (induction self tr1 w rule: replay.induct) simp_all

lemma resolver_run_refl: "resolver_run self new_pdu s s"
  by (simp add: resolver_run_def same_lock_def)

lemma resolver_run_trans:
  assumes "resolver_run self new_pdu s s1" and "resolver_run self new_pdu s1 s2"
  shows "resolver_run self new_pdu s s2"
proof -
  obtain tr1 tr2 where "trace s1 = trace s @ tr1" "list_all (resolver_call new_pdu) tr1"
      "world s1 = replay self tr1 (world s)"
      "trace s2 = trace s1 @ tr2" "list_all (resolver_call new_pdu) tr2"
      "world s2 = replay self tr2 (world s1)"
    using assms unfolding resolver_run_def by blast
  then have "trace s2 = trace s @ (tr1 @ tr2) \<and> list_all (resolver_call new_pdu) (tr1 @ tr2) \<and>
             world s2 = replay self (tr1 @ tr2) (world s)"
    by (simp add: replay_append)
  then show ?thesis
    using assms unfolding resolver_run_def same_lock_def by metis
qed

lemma resolver_run_step:
  assumes "resolver_call new_pdu c" and "\<not> is_fetch c"
  shows "resolver_run self new_pdu s (s\<lparr>trace := trace s @ [c]\<rparr>)"
proof -
  have "replay self [c] (world s) = world s"
    using assms(2) by (cases c) (simp_all add: is_fetch_def)
  then show ?thesis
    using assms(1) by (simp add: resolver_run_def same_lock_def)
qed

lemma resolver_run_fetch:
  "resolver_run self new_pdu s
     (s\<lparr>world := snd (get_pdu self (world s) destination pdu_origin p_id True),
        trace := trace s @ [GetUnresolvedStateTree new_pdu,
                            GetPdu destination pdu_origin p_id True]\<rparr>)"
  by (simp add: resolver_run_def same_lock_def resolver_call_def)

lemma run_conflict_res_run:
  "resolver_run self new_pdu s (snd (run_conflict_res algos new_branch current_branch s))"
proof (induction algos arbitrary: s)
  case Nil
  show ?case by (simp add: resolver_run_refl)
next
  case (Cons a rest)
  let ?s' = "s\<lparr>trace := trace s @ [ConflictRes a]\<rparr>"
  have step: "resolver_run self new_pdu s ?s'"
    by (rule resolver_run_step) (simp_all add: resolver_call_def is_fetch_def)
  have "snd (run_conflict_res (a # rest) new_branch current_branch s) = ?s' \<or>
        snd (run_conflict_res (a # rest) new_branch current_branch s) =
          snd (run_conflict_res rest new_branch current_branch ?s')"
    by (simp add: Let_def split: sum.splits prod.splits)
  then show ?case
    using step Cons[of ?s'] resolver_run_trans[OF step] by auto
qed

lemma u_handle_new_state_run:
  assumes "u_handle_new_state self new_pdu s = Some y"
  shows "resolver_run self new_pdu s (snd y)"
proof (rule u_handle_new_state.raw_induct
    [where P = "\<lambda>self new_pdu s y. resolver_run self new_pdu s (snd y)", OF _ assms], goal_cases)
  case (1 f self new_pdu s y)
  let ?s1 = "s\<lparr>trace := trace s @ [GetUnresolvedStateTree new_pdu]\<rparr>"
  have q: "resolver_run self new_pdu s ?s1"
    by (rule resolver_run_step) (simp_all add: resolver_call_def is_fetch_def)
  show ?case
  proof (cases "get_unresolved_state_tree self (world s) new_pdu")
    case (Inl e)
    then show ?thesis using 1(2) q by auto
  next
    case (Inr t)
    obtain nb cb where t: "t = (nb, cb)" by (cases t)
    show ?thesis
    proof (cases "cb = [] \<or> nb = [] \<or> (last nb = last cb \<and> length cb = 1)")
      case True
      then have "snd y = ?s1"
        using 1(2) Inr t by (auto simp: py_last_def Let_def split: if_splits)
      then show ?thesis using q by simp
    next
      case False
      note nontrivial = this
      show ?thesis
      proof (cases "last nb = last cb")
        case True
        then have "snd y = snd (run_conflict_res conflict_res nb cb ?s1)"
          using 1(2) Inr t nontrivial by (auto simp: py_last_def Let_def split: if_splits)
        then show ?thesis
          using resolver_run_trans[OF q run_conflict_res_run[of self new_pdu ?s1]] by simp
      next
        case False
        define m where "m = py_max2 depth (last nb) (last cb)"
        define fetched where
          "fetched = get_pdu self (world s) (origin m) (prev_state_origin m) (prev_state_id m) True"
        define s2 where
          "s2 = s\<lparr>world := snd fetched,
                  trace := trace s @ [GetUnresolvedStateTree new_pdu,
                     GetPdu (origin m) (prev_state_origin m) (prev_state_id m) True]\<rparr>"
        have r2: "resolver_run self new_pdu s s2"
          unfolding s2_def fetched_def by (rule resolver_run_fetch)
        have body: "(case fst fetched of Inl e \<Rightarrow> Some (Inl e, s2) | Inr _ \<Rightarrow> f self new_pdu s2) = Some y"
          unfolding m_def fetched_def s2_def
          using 1(2) Inr t nontrivial False
          by (simp add: py_last_def Let_def)
        show ?thesis
        proof (cases "fst fetched")
          case (Inl e)
          then show ?thesis using body r2 by auto
        next
          case (Inr u)
          then have "f self new_pdu s2 = Some y" using body by simp
          then have "resolver_run self new_pdu s2 (snd y)" by (rule 1(1))
          then show ?thesis using resolver_run_trans[OF r2] by simp
        qed
      qed
    qed
  qed
qed

lemma call_back_effect:
  "same_lock s (snd (call_back tag cb x s)) \<and>
   trace (snd (call_back tag cb x s)) = trace s @ [tag x]"
  by (auto simp: call_back_def maybeDeferred_def same_lock_def Let_def
        split: sum.splits callable.splits)

lemma handle_new_state_try_run:
  assumes "handle_new_state_try self new_pdu cb s = Some (r, s')"
  shows "same_lock s s' \<and>
         (\<exists>v tr. map_option fst (u_handle_new_state self new_pdu s) = Some v \<and>
            list_all (resolver_call new_pdu) tr \<and>
            trace s' = trace s @ tr @
              (if v = Inr True \<and> cb \<noteq> None then [StateCallback new_pdu] else []))"
proof -
  obtain v s1 where run: "u_handle_new_state self new_pdu s = Some (v, s1)"
    using assms by (auto simp: handle_new_state_try_def split: option.splits)
  from u_handle_new_state_run[OF run]
  obtain tr where lock1: "same_lock s s1" and tr: "trace s1 = trace s @ tr"
      "list_all (resolver_call new_pdu) tr"
    by (auto simp: resolver_run_def)
  show ?thesis
  proof (cases "v = Inr True \<and> cb \<noteq> None")
    case True
    then obtain f where f: "cb = Some f" by auto
    have "s' = snd (call_back StateCallback f new_pdu s1)"
      using assms run True f
      by (auto simp: handle_new_state_try_def split: prod.splits sum.splits)
    then have "same_lock s1 s'" "trace s' = trace s1 @ [StateCallback new_pdu]"
      using call_back_effect[of s1 StateCallback f new_pdu] by auto
    then show ?thesis
      using lock1 tr run True by (auto simp: same_lock_def)
  next
    case False
    then have "s' = s1"
      using assms run
      by (cases v; cases cb) (auto simp: handle_new_state_try_def split: if_splits)
    then show ?thesis
      using lock1 tr run False by auto
  qed
qed

lemma call_back_invoked:
  assumes "call_back StateCallback f new_pdu s1 = (res, s2)"
  shows "trace s2 = trace s1 @ [StateCallback new_pdu] \<and>
         (case res of Inl e \<Rightarrow> Raised e | Inr u \<Rightarrow> Returned True, world s2) =
           callback_invoked f new_pdu (world s1)"
proof -
  obtain r1 w1 where applied: "f new_pdu (world s1) = (r1, w1)"
    by (cases "f new_pdu (world s1)")
  show ?thesis
  proof (cases r1)
    case (Inl e)
    then show ?thesis
      using assms applied by (auto simp: call_back_def callback_invoked_def Let_def)
  next
    case (Inr c)
    show ?thesis
    proof (cases c)
      case NotCallable
      then show ?thesis
        using assms applied Inr
        by (auto simp: call_back_def maybeDeferred_def callback_invoked_def Let_def)
    next
      case (Callable g)
      obtain r2 w2 where ran: "g w1 = (r2, w2)"
        by (cases "g w1")
      then show ?thesis
        using assms applied Inr Callable
        by (cases r2) (auto simp: call_back_def maybeDeferred_def callback_invoked_def Let_def)
    qed
  qed
qed

lemma handle_new_state_resume_admission:
  assumes "handle_new_state_resume self new_pdu cb d s = Some (r, s')"
  shows "admission self new_pdu cb s r s'"
proof -
  obtain v s1 where run: "u_handle_new_state self new_pdu s = Some (v, s1)"
    using assms
    by (auto simp: handle_new_state_resume_def handle_new_state_try_def split: option.splits)
  from u_handle_new_state_run[OF run]
  obtain tr where tr: "trace s1 = trace s @ tr" "list_all (resolver_call new_pdu) tr"
      "world s1 = replay self tr (world s)"
    by (auto simp: resolver_run_def)
  have "case (if v = Inr True then cb else None) of
           None \<Rightarrow>
             trace s' = trace s1 \<and> world s' = world s1 \<and>
             r = (case v of Inl e \<Rightarrow> Raised e | Inr is_new \<Rightarrow> Returned is_new)
         | Some f \<Rightarrow>
             trace s' = trace s1 @ [StateCallback new_pdu] \<and>
             (r, world s') = callback_invoked f new_pdu (world s1)"
  proof (cases "if v = Inr True then cb else None")
    case None
    then have "handle_new_state_try self new_pdu cb s = Some (v, s1)"
      using run by (cases v) (auto simp: handle_new_state_try_def split: if_splits)
    then have "s' = fire d s1 \<and> r = (case v of Inl e \<Rightarrow> Raised e | Inr is_new \<Rightarrow> Returned is_new)"
      using assms by (cases v) (auto simp: handle_new_state_resume_def)
    then show ?thesis
      using None by (simp add: fire_def)
  next
    case (Some f)
    then have v: "v = Inr True" "cb = Some f"
      by (auto split: if_splits)
    obtain res s2 where called: "call_back StateCallback f new_pdu s1 = (res, s2)"
      by (cases "call_back StateCallback f new_pdu s1")
    then have "handle_new_state_try self new_pdu cb s =
                 Some (case res of Inl e \<Rightarrow> Inl e | Inr u \<Rightarrow> Inr True, s2)"
      using run v by (cases res) (simp_all add: handle_new_state_try_def)
    then have "s' = fire d s2 \<and> r = (case res of Inl e \<Rightarrow> Raised e | Inr u \<Rightarrow> Returned True)"
      using assms by (cases res) (auto simp: handle_new_state_resume_def)
    then show ?thesis
      using Some call_back_invoked[OF called] by (simp add: fire_def)
  qed
  then show ?thesis
    unfolding admission_def using run tr by blast
qed

lemma replay_view:
  assumes "\<And>w destination pdu_origin p_id.
             view (snd (get_pdu self w destination pdu_origin p_id True)) = view w"
      and "list_all (resolver_call new_pdu) tr"
  shows "view (replay self tr w) = view w"
  using assms(2)
proof (induction tr arbitrary: w)
  case Nil
  show ?case by simp
next
  case (Cons c tr)
  then show ?case
    using assms(1) by (cases c) (auto simp: resolver_call_def)
qed

lemma admission_view:
  assumes "\<And>w destination pdu_origin p_id.
             view (snd (get_pdu self w destination pdu_origin p_id True)) = view w"
      and "admission self new_pdu cb s r s'"
  shows "r \<noteq> Waiting \<and>
         (cb = None \<or> r = Returned False \<longrightarrow> view (world s') = view (world s)) \<and>
         (view (world s') = view (world s) \<or>
          (\<exists>f w1. cb = Some f \<and> view w1 = view (world s) \<and>
             (r, world s') = callback_invoked f new_pdu w1))"
proof -
  obtain v s1 tr where run: "u_handle_new_state self new_pdu s = Some (v, s1)"
      and tr: "list_all (resolver_call new_pdu) tr" "world s1 = replay self tr (world s)"
      and tail: "case (if v = Inr True then cb else None) of
           None \<Rightarrow>
             trace s' = trace s1 \<and> world s' = world s1 \<and>
             r = (case v of Inl e \<Rightarrow> Raised e | Inr is_new \<Rightarrow> Returned is_new)
         | Some f \<Rightarrow>
             trace s' = trace s1 @ [StateCallback new_pdu] \<and>
             (r, world s') = callback_invoked f new_pdu (world s1)"
    using assms(2) unfolding admission_def by blast
  have kept: "view (world s1) = view (world s)"
    using replay_view[of view self new_pdu tr "world s"] assms(1) tr by simp
  show ?thesis
  proof (cases "if v = Inr True then cb else None")
    case None
    then show ?thesis using tail kept by (cases v) auto
  next
    case (Some f)
    then have inv: "cb = Some f" "(r, world s') = callback_invoked f new_pdu (world s1)"
      using tail by (auto split: if_splits)
    have "fst (callback_invoked f new_pdu (world s1)) \<noteq> Returned False"
      "fst (callback_invoked f new_pdu (world s1)) \<noteq> Waiting"
      by (auto simp: callback_invoked_def split: prod.splits sum.splits callable.splits)
    then have "r \<noteq> Returned False" "r \<noteq> Waiting"
      using inv(2) by (metis fst_conv)+
    then show ?thesis
      using inv kept by auto
  qed
qed

text \<open>
  C9. Neither \<^verbatim>\<open>_handle_new_state\<close> nor \<^verbatim>\<open>handle_new_state\<close> calls
  \<^verbatim>\<open>update_current_state\<close>, whatever the verdict. A run of the resolver makes resolver
  calls only (state-tree queries, outlier fetches, tiebreak methods) and leaves the world
  as its fetches made it. \<^verbatim>\<open>handle_new_state\<close>, resumed after the lock or not suspended at
  all, then applies the caller's callback to the new PDU exactly when the resolver returned
  \<open>True\<close> and a callback was given, and does nothing else; a suspended call has done
  nothing yet. So whatever of the world an outlier fetch leaves alone (\<open>view\<close>, for one the
  stored current state) is after the call as it was before, unless the callback was
  invoked, and then it is as the callback left it.
\<close>

theorem replicated_admission_calls:
  "\<not> resolver_call new_pdu (UpdateCurrentState p_id p_origin k_context k_type k_state_key) \<and>
   \<not> resolver_call new_pdu (StateCallback p) \<and>
   (u_handle_new_state self new_pdu s = Some (v, s1) \<longrightarrow>
      (\<exists>tr. trace s1 = trace s @ tr \<and> list_all (resolver_call new_pdu) tr \<and>
            world s1 = replay self tr (world s))) \<and>
   (handle_new_state_resume self new_pdu cb d s = Some (r, s') \<longrightarrow>
      admission self new_pdu cb s r s') \<and>
   (handle_new_state self new_pdu cb s = Some (r, s') \<longrightarrow>
      r = Waiting \<and> trace s' = trace s \<and> world s' = world s \<or>
      admission self new_pdu cb
        (s\<lparr>allocated := Suc (allocated s),
           update_deferreds := (update_deferreds s)(pdu_key new_pdu \<mapsto> allocated s)\<rparr>) r s') \<and>
   ((\<forall>w destination pdu_origin p_id.
       view (snd (get_pdu self w destination pdu_origin p_id True)) = view w) \<longrightarrow>
      (u_handle_new_state self new_pdu s = Some (v, s1) \<longrightarrow> view (world s1) = view (world s)) \<and>
      (handle_new_state self new_pdu cb s = Some (r, s') \<longrightarrow>
         (cb = None \<or> r = Returned False \<or> r = Waiting \<longrightarrow> view (world s') = view (world s)) \<and>
         (view (world s') = view (world s) \<or>
          (\<exists>f w1. cb = Some f \<and> view w1 = view (world s) \<and>
             (r, world s') = callback_invoked f new_pdu w1))))"
proof -
  let ?s0 = "s\<lparr>allocated := Suc (allocated s),
                update_deferreds := (update_deferreds s)(pdu_key new_pdu \<mapsto> allocated s)\<rparr>"
  have calls: "\<not> resolver_call new_pdu (UpdateCurrentState p_id p_origin k_context k_type k_state_key)"
    "\<not> resolver_call new_pdu (StateCallback p)"
    by (simp_all add: resolver_call_def)
  have resolver: "\<exists>tr. trace s1 = trace s @ tr \<and> list_all (resolver_call new_pdu) tr \<and>
                    world s1 = replay self tr (world s)"
    if "u_handle_new_state self new_pdu s = Some (v, s1)"
    using u_handle_new_state_run[OF that] by (simp add: resolver_run_def)
  have resumed: "admission self new_pdu cb s r s'"
    if "handle_new_state_resume self new_pdu cb d s = Some (r, s')"
    using that by (rule handle_new_state_resume_admission)
  have public: "r = Waiting \<and> trace s' = trace s \<and> world s' = world s \<or>
                admission self new_pdu cb ?s0 r s'"
    if "handle_new_state self new_pdu cb s = Some (r, s')"
    using handle_new_state_cases[OF that] handle_new_state_resume_admission[of self new_pdu cb "allocated s" ?s0 r s']
    by auto
  have frame: "(u_handle_new_state self new_pdu s = Some (v, s1) \<longrightarrow> view (world s1) = view (world s)) \<and>
      (handle_new_state self new_pdu cb s = Some (r, s') \<longrightarrow>
         (cb = None \<or> r = Returned False \<or> r = Waiting \<longrightarrow> view (world s') = view (world s)) \<and>
         (view (world s') = view (world s) \<or>
          (\<exists>f w1. cb = Some f \<and> view w1 = view (world s) \<and>
             (r, world s') = callback_invoked f new_pdu w1)))"
    if keeps: "\<forall>w destination pdu_origin p_id.
       view (snd (get_pdu self w destination pdu_origin p_id True)) = view w"
  proof (intro conjI impI)
    assume "u_handle_new_state self new_pdu s = Some (v, s1)"
    from resolver[OF this] obtain tr where "list_all (resolver_call new_pdu) tr"
        "world s1 = replay self tr (world s)"
      by blast
    then show "view (world s1) = view (world s)"
      using replay_view[of view self new_pdu tr "world s"] keeps by simp
  next
    assume run: "handle_new_state self new_pdu cb s = Some (r, s')"
    from public[OF run]
    consider "r = Waiting" "world s' = world s" | "admission self new_pdu cb ?s0 r s'"
      by auto
    then have both: "(cb = None \<or> r = Returned False \<or> r = Waiting \<longrightarrow> view (world s') = view (world s)) \<and>
         (view (world s') = view (world s) \<or>
          (\<exists>f w1. cb = Some f \<and> view w1 = view (world s) \<and>
             (r, world s') = callback_invoked f new_pdu w1))"
    proof cases
      case 1
      then show ?thesis by simp
    next
      case 2
      show ?thesis
        using admission_view[of view self new_pdu cb ?s0 r s'] keeps 2 by simp
    qed
    {
      assume "cb = None \<or> r = Returned False \<or> r = Waiting"
      then show "view (world s') = view (world s)" using both by blast
    }
    show "view (world s') = view (world s) \<or>
          (\<exists>f w1. cb = Some f \<and> view w1 = view (world s) \<and>
             (r, world s') = callback_invoked f new_pdu w1)"
      using both by blast
  qed
  show ?thesis
    using calls resolver resumed public frame by blast
qed

theorem replicated_admission_calls_witness:
  "(\<forall>w destination pdu_origin p_id.
      snd (snd (get_pdu (stored short_gap_script) w destination pdu_origin p_id True)) = snd w) \<and>
   map_option (\<lambda>y. (fst y, world (snd y), trace (snd y)))
     (handle_new_state (stored short_gap_script) pdu_N0 (Some make_current)
        (initial (0, Some current_A))) =
     Some (Returned True,
           (1, Some \<lparr>cs_pdu_id = ''N0'', cs_origin = ''n0.org''\<rparr>),
           [GetUnresolvedStateTree pdu_N0,
            GetPdu ''a.org'' (Some ''a0.org'') (Some ''A0'') True,
            GetUnresolvedStateTree pdu_N0,
            ConflictRes PowerLevel,
            StateCallback pdu_N0]) \<and>
   map_option (\<lambda>y. (fst y, world (snd y), trace (snd y)))
     (handle_new_state (stored short_gap_script) pdu_N0 None (initial (0, Some current_A))) =
     Some (Returned True,
           (1, Some current_A),
           [GetUnresolvedStateTree pdu_N0,
            GetPdu ''a.org'' (Some ''a0.org'') (Some ''A0'') True,
            GetUnresolvedStateTree pdu_N0,
            ConflictRes PowerLevel]) \<and>
   map_option (\<lambda>y. (fst y, world (snd y), trace (snd y)))
     (handle_new_state (stored losing_script) pdu_A0 (Some make_current)
        (initial (0, Some current_A))) =
     Some (Returned False,
           (0, Some current_A),
           [GetUnresolvedStateTree pdu_A0, ConflictRes PowerLevel])"
  using replicated_admission_calls
          [where self = "stored short_gap_script" and new_pdu = pdu_N0
             and cb = "Some make_current" and s = "initial (0, Some current_A)" and view = snd]
  by (simp add: handle_new_state_def handle_new_state_resume_def handle_new_state_try_def
        u_lock_def fire_def call_back_def maybeDeferred_def make_current_def current_A_def
        u_handle_new_state.simps stored_def initial_def short_gap_script_def losing_script_def
        py_last_def py_max2_def Let_def
        conflict_res_def u_do_power_level_conflict_res_def
        pdu_N_def pdu_N0_def pdu_A_def pdu_A0_def pdu_Z_def topic_pdu_def)

section \<open>The lock is released\<close>

lemma fill_prev_events_effect:
  "same_lock s (snd (fill_prev_events self event s)) \<and>
   world (snd (fill_prev_events self event s)) = world s \<and>
   (trace (snd (fill_prev_events self event s)) = trace s \<or>
    trace (snd (fill_prev_events self event s)) =
      trace s @ [GetLatestPdusInContext (room_id event)])"
  by (simp add: fill_prev_events_def same_lock_def Let_def split: option.splits sum.splits)

lemma fill_prev_state_effect:
  "same_lock s (snd (fill_prev_state self (KeyStateTuple c t k) event s)) \<and>
   trace (snd (fill_prev_state self (KeyStateTuple c t k) event s)) =
     trace s @ [GetCurrentState c t k] \<and>
   (\<forall>event'. fst (fill_prev_state self (KeyStateTuple c t k) event s) = Inr event' \<longrightarrow>
      (\<exists>cs. get_current_state self (world s) c t k = Inr (Some cs)))"
  by (simp add: fill_prev_state_def same_lock_def Let_def split: option.splits sum.splits)

lemma admit_and_update_lock:
  "same_lock s (snd (admit_and_update self cb key event s))"
proof -
  obtain c t k where key: "key = KeyStateTuple c t k" by (cases key)
  obtain r s1 where cb: "call_back EventCallback cb event s = (r, s1)"
    by (cases "call_back EventCallback cb event s")
  then have "same_lock s s1"
    using call_back_effect[of s EventCallback cb event] by simp
  then show ?thesis
    using key cb
    by (simp add: admit_and_update_def same_lock_def Let_def split: option.splits sum.splits)
qed

lemma handle_new_event_try_lock:
  "same_lock s (snd (handle_new_event_try self event cb key s))"
proof -
  obtain c t k where key: "key = KeyStateTuple c t k" by (cases key)
  obtain r1 s1 where one: "fill_prev_events self event s = (r1, s1)"
    by (cases "fill_prev_events self event s")
  then have l1: "same_lock s s1"
    using fill_prev_events_effect[of s self event] by simp
  show ?thesis
  proof (cases r1)
    case (Inl e)
    then show ?thesis using one l1 by (simp add: handle_new_event_try_def)
  next
    case (Inr event1)
    obtain r2 s2 where two: "fill_prev_state self key event1 s1 = (r2, s2)"
      by (cases "fill_prev_state self key event1 s1")
    then have l2: "same_lock s1 s2"
      using fill_prev_state_effect[of s1 self c t k event1] key by simp
    show ?thesis
    proof (cases r2)
      case (Inl e)
      then show ?thesis
        using one Inr two l1 l2 by (simp add: handle_new_event_try_def same_lock_def)
    next
      case (Inr event2)
      then show ?thesis
        using one \<open>r1 = Inr event1\<close> two l1 l2 admit_and_update_lock[of s2 self cb key event2]
        by (simp add: handle_new_event_try_def same_lock_def)
    qed
  qed
qed

lemma handle_new_state_resume_lock:
  assumes "handle_new_state_resume self new_pdu cb d s = Some (r, s')"
  shows "r \<noteq> Waiting \<and> d \<in> set (called s') \<and> update_deferreds s' = update_deferreds s"
proof -
  obtain r0 s0 where tried: "handle_new_state_try self new_pdu cb s = Some (r0, s0)"
    using assms by (cases "handle_new_state_try self new_pdu cb s")
      (auto simp: handle_new_state_resume_def)
  then have "s' = fire d s0 \<and> r \<noteq> Waiting"
    using assms by (cases r0) (auto simp: handle_new_state_resume_def)
  with handle_new_state_try_run[OF tried] show ?thesis
    by (simp add: same_lock_def fire_def)
qed

lemma handle_new_event_resume_lock:
  assumes "handle_new_event_resume self event cb key d s = (r, s')"
  shows "r \<noteq> Waiting \<and> d \<in> set (called s') \<and> update_deferreds s' = update_deferreds s"
proof -
  obtain r0 s0 where tried: "handle_new_event_try self event cb key s = (r0, s0)"
    by (cases "handle_new_event_try self event cb key s")
  then have "s' = fire d s0 \<and> r \<noteq> Waiting"
    using assms by (cases r0) (auto simp: handle_new_event_resume_def)
  with handle_new_event_try_lock[of s self event cb key] tried show ?thesis
    by (simp add: same_lock_def fire_def)
qed

lemma handle_new_event_cases:
  assumes "handle_new_event self event cb s = (r, s')"
  shows "r = Waiting \<and>
           s' = s\<lparr>allocated := Suc (allocated s),
                   update_deferreds := (update_deferreds s)(event_key event \<mapsto> allocated s)\<rparr> \<or>
         handle_new_event_resume self event cb (event_key event) (allocated s)
           (s\<lparr>allocated := Suc (allocated s),
              update_deferreds := (update_deferreds s)(event_key event \<mapsto> allocated s)\<rparr>) =
           (r, s')"
proof -
  obtain b s0 where l: "u_lock (event_key event) (allocated s) (s\<lparr>allocated := Suc (allocated s)\<rparr>) = (b, s0)"
    by (cases "u_lock (event_key event) (allocated s) (s\<lparr>allocated := Suc (allocated s)\<rparr>)")
  then have "s0 = s\<lparr>allocated := Suc (allocated s),
                   update_deferreds := (update_deferreds s)(event_key event \<mapsto> allocated s)\<rparr>"
    using after_lock[where key = "event_key event" and d = "allocated s" and s = s
        and n = "Suc (allocated s)"] by simp
  then show ?thesis
    using assms l
    by (cases b) (simp_all add: handle_new_event_def Let_def event_key_def
          u_get_state_key_from_event_def)
qed

text \<open>
  C8. Whenever \<^verbatim>\<open>handle_new_state\<close> or \<^verbatim>\<open>handle_new_event\<close> returns or raises, for whatever
  reason (a verdict, a rejecting callback, a failing persistence service, a failing fetch,
  the fatal tiebreak exception, a missing attribute), the deferred it registered for its
  key has been called: it is the table's entry for the key, so the key's lock is free again.
  The same holds for a call that was suspended in \<^verbatim>\<open>_lock\<close> and is resumed: when it ends,
  its deferred has been called, and the table is as it was when it resumed.
\<close>

theorem lock_released_on_every_exit:
  "(handle_new_state_resume self new_pdu cb d s = Some (r, s') \<longrightarrow>
      r \<noteq> Waiting \<and> d \<in> set (called s') \<and> update_deferreds s' = update_deferreds s) \<and>
   (handle_new_state self new_pdu cb s = Some (r, s') \<and> r \<noteq> Waiting \<longrightarrow>
      update_deferreds s' (pdu_key new_pdu) = Some (allocated s) \<and>
      allocated s \<in> set (called s') \<and> lock_free s' (pdu_key new_pdu)) \<and>
   (handle_new_event_resume self' event ecb key d' t = (q, t') \<longrightarrow>
      q \<noteq> Waiting \<and> d' \<in> set (called t') \<and> update_deferreds t' = update_deferreds t) \<and>
   (handle_new_event self' event ecb t = (q, t') \<and> q \<noteq> Waiting \<longrightarrow>
      update_deferreds t' (event_key event) = Some (allocated t) \<and>
      allocated t \<in> set (called t') \<and> lock_free t' (event_key event))"
proof (intro conjI impI)
  assume "handle_new_state_resume self new_pdu cb d s = Some (r, s')"
  from handle_new_state_resume_lock[OF this]
  show "r \<noteq> Waiting" "d \<in> set (called s')" "update_deferreds s' = update_deferreds s"
    by simp_all
next
  assume "handle_new_state self new_pdu cb s = Some (r, s') \<and> r \<noteq> Waiting"
  then have "handle_new_state_resume self new_pdu cb (allocated s)
           (s\<lparr>allocated := Suc (allocated s),
              update_deferreds := (update_deferreds s)(pdu_key new_pdu \<mapsto> allocated s)\<rparr>) =
           Some (r, s')"
    using handle_new_state_cases[of self new_pdu cb s r s'] by simp
  from handle_new_state_resume_lock[OF this]
  show "update_deferreds s' (pdu_key new_pdu) = Some (allocated s)"
    "allocated s \<in> set (called s')" "lock_free s' (pdu_key new_pdu)"
    by (simp_all add: lock_free_def)
next
  assume "handle_new_event_resume self' event ecb key d' t = (q, t')"
  from handle_new_event_resume_lock[OF this]
  show "q \<noteq> Waiting" "d' \<in> set (called t')" "update_deferreds t' = update_deferreds t"
    by simp_all
next
  assume "handle_new_event self' event ecb t = (q, t') \<and> q \<noteq> Waiting"
  then have "handle_new_event_resume self' event ecb (event_key event) (allocated t)
           (t\<lparr>allocated := Suc (allocated t),
              update_deferreds := (update_deferreds t)(event_key event \<mapsto> allocated t)\<rparr>) =
           (q, t')"
    using handle_new_event_cases[of self' event ecb t q t'] by simp
  from handle_new_event_resume_lock[OF this]
  show "update_deferreds t' (event_key event) = Some (allocated t)"
    "allocated t \<in> set (called t')" "lock_free t' (event_key event)"
    by (simp_all add: lock_free_def)
qed

theorem lock_released_on_every_exit_witness:
  "map_option fst
     (handle_new_state (scripted (\<lambda>w. Inr ([pdu_X1, pdu_Z], [pdu_X2, pdu_Z])) (\<lambda>w. Inr ()))
        pdu_X1 None (initial 0)) = Some (Raised (Exception ''Conflict resolution failed.'')) \<and>
   map_option (\<lambda>y. called (snd y))
     (handle_new_state (scripted (\<lambda>w. Inr ([pdu_X1, pdu_Z], [pdu_X2, pdu_Z])) (\<lambda>w. Inr ()))
        pdu_X1 None (initial 0)) = Some [0] \<and>
   map_option (\<lambda>y. lock_free (snd y) (pdu_key pdu_X1))
     (handle_new_state (scripted (\<lambda>w. Inr ([pdu_X1, pdu_Z], [pdu_X2, pdu_Z])) (\<lambda>w. Inr ()))
        pdu_X1 None (initial 0)) = Some True \<and>
   fst (handle_new_event
          (with_current_state (with_service (scripted (\<lambda>w. Inr ([], [])) (\<lambda>w. Inr ()))))
          topic_event returns_none (initial 0)) = Raised TypeError \<and>
   called (snd (handle_new_event
          (with_current_state (with_service (scripted (\<lambda>w. Inr ([], [])) (\<lambda>w. Inr ()))))
          topic_event returns_none (initial 0))) = [0]"
  using lock_released_on_every_exit
          [where self = "scripted (\<lambda>w. Inr ([pdu_X1, pdu_Z], [pdu_X2, pdu_Z])) (\<lambda>w. Inr ())"
             and new_pdu = pdu_X1 and cb = None and s = "initial 0"
             and self' = "with_current_state (with_service (scripted (\<lambda>w. Inr ([], [])) (\<lambda>w. Inr ())))"
             and event = topic_event and ecb = returns_none and t = "initial 0"]
  by (simp add: handle_new_state_def handle_new_state_resume_def handle_new_state_try_def
        handle_new_event_def handle_new_event_resume_def handle_new_event_try_def
        fill_prev_events_def fill_prev_state_def admit_and_update_def
        u_get_state_key_from_event_def
        u_lock_def fire_def call_back_def maybeDeferred_def returns_none_def
        with_service_def with_current_state_def topic_event_def lock_free_def pdu_key_def
        u_handle_new_state.simps scripted_def initial_def
        py_last_def Let_def
        conflict_res_def u_do_power_level_conflict_res_def u_do_chain_length_conflict_res_def
        u_do_hash_conflict_res_def branch_str_def
        pdu_X1_def pdu_X2_def pdu_Z_def topic_pdu_def)

section \<open>\<^verbatim>\<open>handle_new_event\<close> without a current state\<close>

lemma handle_new_event_try_none:
  assumes "get_current_state self (world s) c t k = Inr None"
  shows "\<exists>e tr. handle_new_event_try self event cb (KeyStateTuple c t k) s =
                  (Inl e, s\<lparr>trace := trace s @ tr\<rparr>) \<and>
           (tr = [] \<or> tr = [GetLatestPdusInContext (room_id event)] \<or>
            tr = [GetLatestPdusInContext (room_id event), GetCurrentState c t k])"
proof (cases "service self")
  case None
  then have "handle_new_event_try self event cb (KeyStateTuple c t k) s =
               (Inl AttributeError, s\<lparr>trace := trace s @ []\<rparr>)"
    by (simp add: handle_new_event_try_def fill_prev_events_def)
  then show ?thesis by blast
next
  case (Some latest)
  let ?s1 = "s\<lparr>trace := trace s @ [GetLatestPdusInContext (room_id event)]\<rparr>"
  obtain r1 s1 where one: "fill_prev_events self event s = (r1, s1)"
    by (cases "fill_prev_events self event s")
  then have s1: "s1 = ?s1"
    using Some by (auto simp: fill_prev_events_def Let_def split: sum.splits if_splits)
  show ?thesis
  proof (cases r1)
    case (Inl e)
    then have "handle_new_event_try self event cb (KeyStateTuple c t k) s = (Inl e, ?s1)"
      using one s1 by (simp add: handle_new_event_try_def)
    then show ?thesis by blast
  next
    case (Inr event1)
    have "fill_prev_state self (KeyStateTuple c t k) event1 ?s1 =
            (Inl AttributeError, ?s1\<lparr>trace := trace ?s1 @ [GetCurrentState c t k]\<rparr>)"
      using assms by (simp add: fill_prev_state_def Let_def)
    then have "handle_new_event_try self event cb (KeyStateTuple c t k) s =
                 (Inl AttributeError,
                  s\<lparr>trace := trace s @
                       [GetLatestPdusInContext (room_id event), GetCurrentState c t k]\<rparr>)"
      using one s1 Inr by (simp add: handle_new_event_try_def)
    then show ?thesis by blast
  qed
qed

lemma handle_new_event_try_ok:
  assumes "fst (handle_new_event_try self event cb (KeyStateTuple c t k) s) = Inr u"
  shows "\<exists>cs. get_current_state self (world s) c t k = Inr (Some cs)"
proof -
  obtain r1 s1 where one: "fill_prev_events self event s = (r1, s1)"
    by (cases "fill_prev_events self event s")
  then have w: "world s1 = world s"
    using fill_prev_events_effect[of s self event] by simp
  obtain event1 where r1: "r1 = Inr event1"
    using assms one by (cases r1) (simp_all add: handle_new_event_try_def)
  obtain r2 s2 where two: "fill_prev_state self (KeyStateTuple c t k) event1 s1 = (r2, s2)"
    by (cases "fill_prev_state self (KeyStateTuple c t k) event1 s1")
  obtain event2 where r2: "r2 = Inr event2"
    using assms one r1 two by (cases r2) (simp_all add: handle_new_event_try_def)
  show ?thesis
    using fill_prev_state_effect[of s1 self c t k event1] two r2 w by simp
qed

text \<open>
  As \<^verbatim>\<open>__init__\<close> leaves it, the handler has no attribute \<^verbatim>\<open>service\<close>: a call of
  \<^verbatim>\<open>handle_new_event\<close> that gets the lock raises \<^verbatim>\<open>AttributeError\<close> at once, having called
  no collaborator.
\<close>

lemma handle_new_event_without_service:
  assumes "service self = None" and "lock_free s (event_key event)"
  shows "handle_new_event self event cb s =
           (Raised AttributeError,
            s\<lparr>allocated := Suc (allocated s),
               update_deferreds := (update_deferreds s)(event_key event \<mapsto> allocated s),
               called := called s @ [allocated s]\<rparr>)"
  using assms(1) u_lock_free[OF assms(2)]
  by (simp add: handle_new_event_def handle_new_event_resume_def handle_new_event_try_def
        fill_prev_events_def Let_def event_key_def u_get_state_key_from_event_def fire_def)

text \<open>
  C10. When the persistence service has no current state for the event's slot,
  \<^verbatim>\<open>handle_new_event\<close> does not return: it raises once it has the lock, and all it has done
  by then is at most the two queries (latest PDUs, current state), so the admission
  callback was not invoked and \<^verbatim>\<open>update_current_state\<close> was not called. Conversely a call
  that returns found a current state for the slot.
\<close>

theorem new_event_needs_current_state:
  "(get_current_state self (world s) (room_id event) (event_type event) (event_state_key event) =
      Inr None \<longrightarrow>
      fst (handle_new_event self event cb s) \<noteq> Returned () \<and>
      (lock_free s (event_key event) \<longrightarrow> (\<exists>e. fst (handle_new_event self event cb s) = Raised e)) \<and>
      (\<exists>tr. trace (snd (handle_new_event self event cb s)) = trace s @ tr \<and>
         (tr = [] \<or> tr = [GetLatestPdusInContext (room_id event)] \<or>
          tr = [GetLatestPdusInContext (room_id event),
                GetCurrentState (room_id event) (event_type event) (event_state_key event)]))) \<and>
   (fst (handle_new_event self event cb s) = Returned () \<longrightarrow>
      (\<exists>cs. get_current_state self (world s) (room_id event) (event_type event)
               (event_state_key event) = Inr (Some cs)))"
proof -
  let ?c = "room_id event" and ?t = "event_type event" and ?k = "event_state_key event"
  let ?s0 = "s\<lparr>allocated := Suc (allocated s),
                update_deferreds := (update_deferreds s)(event_key event \<mapsto> allocated s)\<rparr>"
  obtain r s' where run: "handle_new_event self event cb s = (r, s')"
    by (cases "handle_new_event self event cb s")
  obtain r0 s0 where tried: "handle_new_event_try self event cb (KeyStateTuple ?c ?t ?k) ?s0 = (r0, s0)"
    by (cases "handle_new_event_try self event cb (KeyStateTuple ?c ?t ?k) ?s0")
  have resume: "handle_new_event_resume self event cb (event_key event) (allocated s) ?s0 =
                  (case r0 of Inl e \<Rightarrow> Raised e | Inr _ \<Rightarrow> Returned (), fire (allocated s) s0)"
    using tried by (simp add: handle_new_event_resume_def event_key_def split: sum.splits)
  have alt: "r = Waiting \<and> s' = ?s0 \<or>
             (r, s') = (case r0 of Inl e \<Rightarrow> Raised e | Inr _ \<Rightarrow> Returned (), fire (allocated s) s0)"
    using handle_new_event_cases[OF run] resume by auto
  have free: "lock_free s (event_key event) \<Longrightarrow>
              (r, s') = (case r0 of Inl e \<Rightarrow> Raised e | Inr _ \<Rightarrow> Returned (), fire (allocated s) s0)"
    using run resume u_lock_free[of s "event_key event" "allocated s" "Suc (allocated s)"]
    by (simp add: handle_new_event_def Let_def event_key_def u_get_state_key_from_event_def)
  have part2: "\<exists>cs. get_current_state self (world s) ?c ?t ?k = Inr (Some cs)"
    if "r = Returned ()"
  proof -
    have "r0 \<noteq> Inl e" for e
      using alt that by auto
    then obtain u where "r0 = Inr u"
      by (cases r0) auto
    then show ?thesis
      using handle_new_event_try_ok[of self event cb ?c ?t ?k ?s0 u] tried by simp
  qed
  have part1: "r \<noteq> Returned () \<and>
      (lock_free s (event_key event) \<longrightarrow> (\<exists>e. r = Raised e)) \<and>
      (\<exists>tr. trace s' = trace s @ tr \<and>
         (tr = [] \<or> tr = [GetLatestPdusInContext ?c] \<or>
          tr = [GetLatestPdusInContext ?c, GetCurrentState ?c ?t ?k]))"
    if none: "get_current_state self (world s) ?c ?t ?k = Inr None"
  proof -
    have "get_current_state self (world ?s0) ?c ?t ?k = Inr None"
      using none by simp
    from handle_new_event_try_none[OF this, of event cb] tried
    obtain e tr where r0: "r0 = Inl e" and s0: "s0 = ?s0\<lparr>trace := trace ?s0 @ tr\<rparr>"
      and tr: "tr = [] \<or> tr = [GetLatestPdusInContext ?c] \<or>
               tr = [GetLatestPdusInContext ?c, GetCurrentState ?c ?t ?k]"
      by auto
    have "r \<noteq> Returned ()" using alt r0 by auto
    moreover have "lock_free s (event_key event) \<longrightarrow> (\<exists>e. r = Raised e)"
      using free r0 by auto
    moreover have "trace s' = trace s @ [] \<or> trace s' = trace s @ tr"
      using alt r0 s0 by (auto simp: fire_def)
    then have "\<exists>tr. trace s' = trace s @ tr \<and>
         (tr = [] \<or> tr = [GetLatestPdusInContext ?c] \<or>
          tr = [GetLatestPdusInContext ?c, GetCurrentState ?c ?t ?k])"
      using tr by blast
    ultimately show ?thesis by blast
  qed
  show ?thesis
    using part1 part2 run by simp
qed

theorem new_event_needs_current_state_witness:
  "get_current_state (with_service (scripted (\<lambda>w. Inr ([], [])) (\<lambda>w. Inr ())))
     (world (initial 0)) (room_id topic_event) (event_type topic_event)
     (event_state_key topic_event) = Inr None \<and>
   lock_free (initial (0::nat)) (event_key topic_event) \<and>
   fst (handle_new_event (with_service (scripted (\<lambda>w. Inr ([], [])) (\<lambda>w. Inr ())))
          topic_event accepting (initial 0)) = Raised AttributeError \<and>
   trace (snd (handle_new_event (with_service (scripted (\<lambda>w. Inr ([], [])) (\<lambda>w. Inr ())))
          topic_event accepting (initial 0))) =
     [GetLatestPdusInContext ''!room:hs'', GetCurrentState ''!room:hs'' ''m.room.topic'' []] \<and>
   fst (handle_new_event
          (with_current_state (with_service (scripted (\<lambda>w. Inr ([], [])) (\<lambda>w. Inr ()))))
          topic_event accepting (initial 0)) = Returned () \<and>
   trace (snd (handle_new_event
          (with_current_state (with_service (scripted (\<lambda>w. Inr ([], [])) (\<lambda>w. Inr ()))))
          topic_event accepting (initial 0))) =
     [GetLatestPdusInContext ''!room:hs'', GetCurrentState ''!room:hs'' ''m.room.topic'' [],
      EventCallback
        (topic_event\<lparr>prev_events := [''A@a.org'', ''N0@n0.org''], event_depth := 4,
           event_prev_state_id := ''A'', event_prev_state_origin := ''a.org''\<rparr>),
      UpdateCurrentState ''E'' ''hs'' ''!room:hs'' ''m.room.topic'' []]"
  using new_event_needs_current_state
          [of "with_service (scripted (\<lambda>w. Inr ([], [])) (\<lambda>w. Inr ()))" "initial 0" topic_event
              accepting]
  by (simp add: handle_new_event_def handle_new_event_resume_def handle_new_event_try_def
        fill_prev_events_def fill_prev_state_def admit_and_update_def
        u_get_state_key_from_event_def
        u_lock_def fire_def call_back_def maybeDeferred_def accepting_def
        with_service_def with_current_state_def topic_event_def lock_free_def event_key_def
        scripted_def initial_def Let_def)

section \<open>Gap filling terminates\<close>

lemma run_conflict_res_fetches:
  "fetches (snd (run_conflict_res algos new_branch current_branch s)) = fetches s"
proof (induction algos arbitrary: s)
  case Nil
  show ?case by simp
next
  case (Cons a rest)
  have "fetches (s\<lparr>trace := trace s @ [ConflictRes a]\<rparr>) = fetches s"
    by (simp add: fetches_def is_fetch_def)
  then show ?case
    using Cons[of "s\<lparr>trace := trace s @ [ConflictRes a]\<rparr>"]
    by (simp add: Let_def split: sum.splits prod.splits)
qed

lemma resolve_without_gap:
  assumes "get_unresolved_state_tree self (world s) new_pdu = Inr (nb, cb)"
      and "\<not> gap (nb, cb)"
  shows "\<exists>r s'. u_handle_new_state self new_pdu s = Some (r, s') \<and> fetches s' = fetches s"
proof -
  let ?s1 = "s\<lparr>trace := trace s @ [GetUnresolvedStateTree new_pdu]\<rparr>"
  have f1: "fetches ?s1 = fetches s"
    by (simp add: fetches_def is_fetch_def)
  have "cb \<noteq> [] \<Longrightarrow> length cb \<noteq> 1 \<Longrightarrow> 1 < length cb"
    by (cases cb) auto
  then consider "cb = []" | "cb \<noteq> []" "nb = []"
    | "cb \<noteq> []" "nb \<noteq> []" "last nb = last cb" "length cb = 1"
    | "cb \<noteq> []" "nb \<noteq> []" "last nb = last cb" "1 < length cb"
    using assms(2) by atomize_elim (auto simp: gap_def)
  then show ?thesis
  proof cases
    case 1
    then show ?thesis using resolve_no_current[of self s new_pdu nb] assms(1) f1 by simp
  next
    case 2
    then have "u_handle_new_state self new_pdu s = Some (Inl IndexError, ?s1)"
      using assms(1) by (subst u_handle_new_state.simps) (simp add: py_last_def Let_def)
    then show ?thesis using f1 by simp
  next
    case 3
    then show ?thesis using resolve_direct[OF assms(1)] f1 by simp
  next
    case 4
    obtain r s' where rc: "run_conflict_res conflict_res nb cb ?s1 = (r, s')"
      by (cases "run_conflict_res conflict_res nb cb ?s1")
    then have "fetches s' = fetches s"
      using run_conflict_res_fetches[of conflict_res nb cb ?s1] f1 by simp
    then show ?thesis using resolve_converging[OF assms(1) 4(2,3,4)] rc by simp
  qed
qed

text \<open>
  C5, as the code has it. Under the precondition that a successful fetch which leaves a
  gap leaves the two branches longer in all than they were (and that a tree with a gap
  stays within the room's \<open>n\<close> events), the resolver returns, with a verdict or an
  exception: the recursion ends. Each tree with a gap that the run meets costs one fetch,
  and the run makes at most \<open>rounds_left\<close> of them, which is less than the room's event
  count.
\<close>

theorem gap_filling_terminates:
  assumes "fetch_grows self new_pdu n"
  shows "\<exists>r s'. u_handle_new_state self new_pdu s = Some (r, s') \<and>
           fetches s' \<le> fetches s + rounds_left self new_pdu n (world s) \<and>
           rounds_left self new_pdu n (world s) \<le> n - 1"
proof (induction "rounds_left self new_pdu n (world s)" arbitrary: s rule: less_induct)
  case less
  show ?case
  proof (cases "get_unresolved_state_tree self (world s) new_pdu")
    case (Inl e)
    then have "u_handle_new_state self new_pdu s =
                 Some (Inl e, s\<lparr>trace := trace s @ [GetUnresolvedStateTree new_pdu]\<rparr>)"
      by (subst u_handle_new_state.simps) simp
    moreover have "fetches (s\<lparr>trace := trace s @ [GetUnresolvedStateTree new_pdu]\<rparr>) = fetches s"
      by (simp add: fetches_def is_fetch_def)
    moreover have "rounds_left self new_pdu n (world s) = 0"
      using Inl by (simp add: rounds_left_def)
    ultimately show ?thesis by simp
  next
    case (Inr tree)
    obtain nb cb where tree: "get_unresolved_state_tree self (world s) new_pdu = Inr (nb, cb)"
      using Inr by (cases tree) simp
    show ?thesis
    proof (cases "gap (nb, cb)")
      case False
      then have "rounds_left self new_pdu n (world s) = 0"
        using tree by (simp add: rounds_left_def)
      then show ?thesis
        using resolve_without_gap[OF tree False] by auto
    next
      case True
      then have ne: "nb \<noteq> []" "cb \<noteq> []" "last nb \<noteq> last cb"
        by (simp_all add: gap_def)
      have size: "length nb + length cb \<le> n"
        using assms tree True unfolding fetch_grows_def by blast
      have two: "2 \<le> length nb + length cb"
        using ne by (cases nb; cases cb) simp_all
      have left: "rounds_left self new_pdu n (world s) = n + 1 - (length nb + length cb)"
        using tree True by (simp add: rounds_left_def)
      define m where "m = py_max2 depth (last nb) (last cb)"
      obtain r w where fetched:
        "get_pdu self (world s) (origin m) (prev_state_origin m) (prev_state_id m) True = (r, w)"
        by (cases "get_pdu self (world s) (origin m) (prev_state_origin m) (prev_state_id m) True")
      define s2 where
        "s2 = s\<lparr>world := w,
                trace := trace s @ [GetUnresolvedStateTree new_pdu,
                   GetPdu (origin m) (prev_state_origin m) (prev_state_id m) True]\<rparr>"
      have step: "u_handle_new_state self new_pdu s =
                    (case r of Inl e \<Rightarrow> Some (Inl e, s2) | Inr _ \<Rightarrow> u_handle_new_state self new_pdu s2)"
        using resolve_diverging[OF tree ne m_def fetched s2_def] .
      have f2: "fetches s2 = fetches s + 1"
        by (simp add: s2_def fetches_def is_fetch_def)
      have bounds: "1 \<le> rounds_left self new_pdu n (world s)"
        "rounds_left self new_pdu n (world s) \<le> n - 1"
        using left size two by arith+
      show ?thesis
      proof (cases r)
        case (Inl e)
        then show ?thesis
          using step f2 bounds by simp
      next
        case (Inr u)
        have fo: "fetch_of self (world s) (nb, cb) = (Inr u, w)"
          using fetched Inr by (simp add: fetch_of_def m_def)
        have smaller: "rounds_left self new_pdu n (world s2) <
                       rounds_left self new_pdu n (world s)"
        proof (cases "get_unresolved_state_tree self w new_pdu")
          case (Inl e)
          then show ?thesis
            using left size by (simp add: rounds_left_def s2_def)
        next
          case (Inr tree')
          obtain nb' cb' where tree': "get_unresolved_state_tree self w new_pdu = Inr (nb', cb')"
            using Inr by (cases tree') simp
          show ?thesis
          proof (cases "gap (nb', cb')")
            case False
            then show ?thesis
              using left size tree' by (simp add: rounds_left_def s2_def)
          next
            case gap': True
            have "length nb + length cb < length nb' + length cb'"
              using assms tree True fo tree' gap' unfolding fetch_grows_def by blast
            moreover have "length nb' + length cb' \<le> n"
              using assms tree' gap' unfolding fetch_grows_def by blast
            ultimately show ?thesis
              using left size tree' gap' by (simp add: rounds_left_def s2_def)
          qed
        qed
        from less[OF smaller]
        obtain r' s' where "u_handle_new_state self new_pdu s2 = Some (r', s')"
          "fetches s' \<le> fetches s2 + rounds_left self new_pdu n (world s2)"
          by blast
        then show ?thesis
          using step Inr f2 smaller bounds by auto
      qed
    qed
  qed
qed

lemma gap_script_grows: "fetch_grows (scripted gap_script (\<lambda>w. Inr ())) pdu_N 5"
proof -
  have "w = 0 \<or> w = 1 \<or> w = 2 \<or> 3 \<le> w" for w :: nat
    by arith
  then show ?thesis
    unfolding fetch_grows_def
    by (auto simp: gap_def fetch_of_def scripted_def gap_script_def Let_def
          pdu_N_def pdu_N0_def pdu_A_def pdu_A0_def pdu_Z_def topic_pdu_def)
qed

lemma trunc_script_grows: "fetch_grows (scripted trunc_script (\<lambda>w. Inr ())) pdu_M 5"
  unfolding fetch_grows_def
  by (auto simp: gap_def fetch_of_def scripted_def trunc_script_def Let_def
        pdu_M_def pdu_M0_def pdu_A_def pdu_A0_def pdu_Z_def topic_pdu_def)

theorem gap_filling_terminates_witness:
  "fetch_grows (scripted gap_script (\<lambda>w. Inr ())) pdu_N 5 \<and>
   u_handle_new_state (scripted gap_script (\<lambda>w. Inr ())) pdu_N (initial 0) =
     Some (Inr True,
           (initial 0)\<lparr>world := 3,
              trace := [GetUnresolvedStateTree pdu_N,
                        GetPdu ''n.org'' (Some ''n0.org'') (Some ''N0'') True,
                        GetUnresolvedStateTree pdu_N,
                        GetPdu ''a.org'' (Some ''a0.org'') (Some ''A0'') True,
                        GetUnresolvedStateTree pdu_N,
                        GetPdu ''n0.org'' (Some ''z.org'') (Some ''Z'') True,
                        GetUnresolvedStateTree pdu_N,
                        ConflictRes PowerLevel]\<rparr>) \<and>
   rounds_left (scripted gap_script (\<lambda>w. Inr ())) pdu_N 5 (world (initial 0)) = 4 \<and>
   fetch_grows (scripted trunc_script (\<lambda>w. Inr ())) pdu_M 5 \<and>
   u_handle_new_state (scripted trunc_script (\<lambda>w. Inr ())) pdu_M (initial 0) =
     Some (Inr True,
           (initial 0)\<lparr>world := 1,
              trace := [GetUnresolvedStateTree pdu_M,
                        GetPdu ''m.org'' (Some ''m0.org'') (Some ''M0'') True,
                        GetUnresolvedStateTree pdu_M,
                        ConflictRes PowerLevel]\<rparr>) \<and>
   rounds_left (scripted trunc_script (\<lambda>w. Inr ())) pdu_M 5 (world (initial 0)) = 2"
  using gap_filling_terminates[OF gap_script_grows, of "initial 0"] gap_script_grows
    gap_filling_terminates[OF trunc_script_grows, of "initial 0"] trunc_script_grows
  by (simp add: u_handle_new_state.simps scripted_def initial_def gap_script_def
        trunc_script_def rounds_left_def gap_def
        py_last_def py_max2_def Let_def
        conflict_res_def u_do_power_level_conflict_res_def
        pdu_N_def pdu_N0_def pdu_A_def pdu_A0_def pdu_Z_def pdu_M_def pdu_M0_def topic_pdu_def)

text \<open>
  Without that precondition the recursion need not end, for the source bounds it by
  nothing: when every fetch succeeds and every tree the service returns has a gap, the
  resolver never returns.
\<close>

lemma endless_gap_never_returns:
  assumes gaps: "\<And>w. \<exists>nb cb. get_unresolved_state_tree self w new_pdu = Inr (nb, cb) \<and> gap (nb, cb)"
      and fetched: "\<And>w destination pdu_origin p_id.
                      fst (get_pdu self w destination pdu_origin p_id True) = Inr ()"
  shows "u_handle_new_state self new_pdu s = None"
proof (cases "u_handle_new_state self new_pdu s")
  case None
  then show ?thesis .
next
  case (Some y)
  have "\<not> (self' = self \<and> new_pdu' = new_pdu)"
    if "u_handle_new_state self' new_pdu' s = Some y" for self' new_pdu'
  proof (rule u_handle_new_state.raw_induct
      [where P = "\<lambda>self' new_pdu' s y. \<not> (self' = self \<and> new_pdu' = new_pdu)",
       OF _ that], goal_cases)
    case (1 f self' new_pdu' s y)
    show ?case
    proof
      assume same: "self' = self \<and> new_pdu' = new_pdu"
      obtain nb cb where tree: "get_unresolved_state_tree self (world s) new_pdu = Inr (nb, cb)"
          and ne: "nb \<noteq> []" "cb \<noteq> []" "last nb \<noteq> last cb"
        using gaps[of "world s"] by (auto simp: gap_def)
      have "\<exists>s2. f self new_pdu s2 = Some y"
        using 1(2) same tree ne fetched by (auto simp: py_last_def Let_def)
      then show False
        using 1(1) same by blast
    qed
  qed
  then show ?thesis using Some by blast
qed

text \<open>
  C5 as stated fails. With \<open>alt_script\<close> every successful fetch is followed by a tree in
  which one branch is strictly longer than before, and no tree has more than three of the
  room's five PDUs; but the other branch gets shorter each time, every tree has a gap, and
  the resolver never returns.
\<close>

theorem some_branch_grows_counterexample:
  "some_branch_grows (scripted alt_script (\<lambda>w. Inr ())) pdu_N 5 \<and>
   u_handle_new_state (scripted alt_script (\<lambda>w. Inr ())) pdu_N (initial 0) = None"
proof
  have parity: "even (Suc w) \<longleftrightarrow> odd w" for w :: nat
    by simp
  show "some_branch_grows (scripted alt_script (\<lambda>w. Inr ())) pdu_N 5"
    unfolding some_branch_grows_def
    by (auto simp: gap_def fetch_of_def scripted_def alt_script_def Let_def split: if_splits)
next
  have "pdu_N0 \<noteq> pdu_A" "pdu_N \<noteq> pdu_A0"
    by (simp_all add: pdu_N_def pdu_N0_def pdu_A_def pdu_A0_def topic_pdu_def)
  then have "\<exists>nb cb. get_unresolved_state_tree (scripted alt_script (\<lambda>w. Inr ())) w pdu_N =
               Inr (nb, cb) \<and> gap (nb, cb)" for w
    by (simp add: scripted_def alt_script_def gap_def)
  moreover have "fst (get_pdu (scripted alt_script (\<lambda>w. Inr ())) w destination pdu_origin p_id True) =
                   Inr ()" for w destination pdu_origin p_id
    by (simp add: scripted_def)
  ultimately show "u_handle_new_state (scripted alt_script (\<lambda>w. Inr ())) pdu_N (initial 0) = None"
    by (rule endless_gap_never_returns)
qed

end
